theory Spec2Isabelle
  imports Main "HOL-Library.Multiset" "HOL-Library.AList" "HOL-Library.Char_ord"
begin

section \<open>Exceptions\<close>

text \<open>
  A function that may throw returns \<open>Inl\<close> of the exception or \<open>Inr\<close> of its result.
  \<open>TypeError\<close> is the TypeError of the language (a property read on \<open>undefined\<close> or \<open>null\<close>,
  a call of something that is not a function, a failed conversion to a primitive);
  \<open>ReactError\<close> is the error React throws when an object is placed as a child.
\<close>

datatype error = TypeError | ReactError

text \<open>\<open>Array.prototype.map\<close> and \<open>forEach\<close> with a callback that may throw: the first
  exception ends the loop.\<close>

fun map_err :: "('a \<Rightarrow> error + 'b) \<Rightarrow> 'a list \<Rightarrow> error + 'b list" where
  "map_err f [] = Inr []"
| "map_err f (x # xs) =
     (case f x of Inl e \<Rightarrow> Inl e
      | Inr y \<Rightarrow> (case map_err f xs of Inl e \<Rightarrow> Inl e | Inr ys \<Rightarrow> Inr (y # ys)))"

fun fold_err :: "('a \<Rightarrow> 's \<Rightarrow> error + 's) \<Rightarrow> 'a list \<Rightarrow> 's \<Rightarrow> error + 's" where
  "fold_err f [] s = Inr s"
| "fold_err f (x # xs) s = (case f x s of Inl e \<Rightarrow> Inl e | Inr s' \<Rightarrow> fold_err f xs s')"

section \<open>File tree statistics (FileTree and Report components)\<close>

text \<open>
  A file-tree node as the two \<open>countFiles\<close> functions read it: the \<open>type\<close> field (a string;
  only the comparison with \<open>'file'\<close> matters) and the \<open>children\<close> array. A node whose
  \<open>children\<close> field is absent and a node whose \<open>children\<close> is the empty array behave the
  same in both functions (the body of \<open>if (node.children)\<close> is skipped, or the
  \<open>forEach\<close> runs zero times), so the field is a list and absence is the empty list.
  The children of a node are nodes.
\<close>

datatype ftnode = FTNode (name: string) (ntype: string) (children: "ftnode list")

record stats =
  files :: nat
  folders :: nat

text \<open>
  The body of the \<open>forEach\<close> callback of both functions:
  \<open>stats.files += childStats.files; stats.folders += childStats.folders\<close>.
\<close>

definition add_stats :: "stats \<Rightarrow> stats \<Rightarrow> stats" where
  "add_stats childStats st =
     st\<lparr>files := files st + files childStats, folders := folders st + folders childStats\<rparr>"

text \<open>\<open>countFiles\<close> of the FileTree component.\<close>

fun countFiles :: "ftnode \<Rightarrow> stats" where
  "countFiles (FTNode n t cs) =
     (if t = ''file'' then \<lparr>files = 1, folders = 0\<rparr>
      else fold (\<lambda>child st. add_stats (countFiles child) st) cs \<lparr>files = 0, folders = 1\<rparr>)"

text \<open>The nodes of a subtree, the root first.\<close>

fun subtree :: "ftnode \<Rightarrow> ftnode list" where
  "subtree (FTNode n t cs) = FTNode n t cs # concat (map subtree cs)"

text \<open>A file is a leaf: no node of type \<open>'file'\<close> in the subtree has children.\<close>

definition files_are_leaves :: "ftnode \<Rightarrow> bool" where
  "files_are_leaves t = list_all (\<lambda>n. ntype n = ''file'' \<longrightarrow> children n = []) (subtree t)"

subsection \<open>Trees whose \<open>children\<close> hold any JSON value\<close>

text \<open>
  The file tree arrives as JSON, where an entry of a \<open>children\<close> array need not be a
  node. In both functions an entry is used in three ways only: it is tested for being
  falsy (the guard of the Report component), and its \<open>type\<close> and \<open>children\<close> are read. So
  an entry is a node, \<open>null\<close> (reading a property of it throws a TypeError), or a falsy
  value that is not \<open>null\<close> (\<open>0\<close>, \<open>false\<close> or the empty string, whose properties \<open>type\<close>
  and \<open>children\<close> are \<open>undefined\<close>). A truthy entry that is not an object (a number, a
  string, \<open>true\<close>) has no \<open>type\<close> and no \<open>children\<close> either and is a node without
  children whose type is not \<open>'file'\<close>. As before, \<open>children\<close> is an array, or is absent
  or falsy, which is the empty list.
\<close>

datatype jnode = JNode (jname: string) (jtype: string) (jchildren: "jchild list")
  and jchild = Child jnode | Null_child | Falsy_child

text \<open>
  \<open>countFiles\<close> of the FileTree component on such a tree. The callback of \<open>forEach\<close> calls
  \<open>countFiles(child)\<close>, whose first step reads \<open>node.type\<close>: a TypeError when the child is
  \<open>null\<close>; on a falsy value that is not \<open>null\<close> the type read is \<open>undefined\<close>, not \<open>'file'\<close>,
  and the call returns \<open>{ files: 0, folders: 1 }\<close>. \<open>countFiles_children\<close> is the \<open>forEach\<close>
  loop over the children still to visit, with the \<open>stats\<close> so far.
\<close>

fun countFiles_FileTree :: "jnode \<Rightarrow> error + stats"
  and countFiles_children :: "jchild list \<Rightarrow> stats \<Rightarrow> error + stats" where
  "countFiles_FileTree (JNode n t cs) =
     (if t = ''file'' then Inr \<lparr>files = 1, folders = 0\<rparr>
      else countFiles_children cs \<lparr>files = 0, folders = 1\<rparr>)"
| "countFiles_children [] st = Inr st"
| "countFiles_children (Null_child # cs) st = Inl TypeError"
| "countFiles_children (Falsy_child # cs) st =
     countFiles_children cs (add_stats \<lparr>files = 0, folders = 1\<rparr> st)"
| "countFiles_children (Child c # cs) st =
     (case countFiles_FileTree c of
        Inl e \<Rightarrow> Inl e
      | Inr childStats \<Rightarrow> countFiles_children cs (add_stats childStats st))"

text \<open>
  \<open>countFiles\<close> of the Report component: the same body behind the guard
  \<open>if (!node) return { files: 0, folders: 0 }\<close>, which every call passes through, the
  calls on the children included. \<open>Report_children\<close> is its \<open>forEach\<close> loop.
\<close>

fun countFiles_Report :: "jchild \<Rightarrow> stats"
  and Report_children :: "jchild list \<Rightarrow> stats \<Rightarrow> stats" where
  "countFiles_Report Null_child = \<lparr>files = 0, folders = 0\<rparr>"
| "countFiles_Report Falsy_child = \<lparr>files = 0, folders = 0\<rparr>"
| "countFiles_Report (Child (JNode n t cs)) =
     (if t = ''file'' then \<lparr>files = 1, folders = 0\<rparr>
      else Report_children cs \<lparr>files = 0, folders = 1\<rparr>)"
| "Report_children [] st = st"
| "Report_children (c # cs) st = Report_children cs (add_stats (countFiles_Report c) st)"

text \<open>
  Only nodes are met: every node that is not of type \<open>'file'\<close> has only nodes as
  children, and the same holds of these children. (The children of a node of type
  \<open>'file'\<close> are not visited.)
\<close>

fun only_nodes_met :: "jnode \<Rightarrow> bool"
  and only_nodes_among :: "jchild list \<Rightarrow> bool" where
  "only_nodes_met (JNode n t cs) = (t = ''file'' \<or> only_nodes_among cs)"
| "only_nodes_among [] = True"
| "only_nodes_among (Null_child # cs) = False"
| "only_nodes_among (Falsy_child # cs) = False"
| "only_nodes_among (Child c # cs) = (only_nodes_met c \<and> only_nodes_among cs)"

text \<open>A tree whose children are all nodes, as a \<open>jnode\<close>.\<close>

fun to_jnode :: "ftnode \<Rightarrow> jnode" where
  "to_jnode (FTNode n t cs) = JNode n t (map (\<lambda>c. Child (to_jnode c)) cs)"

text \<open>Example trees: a folder with a file; the same with a \<open>null\<close> before the file; and
  with a \<open>0\<close> before the file.\<close>

definition clean_tree :: jnode where
  "clean_tree = JNode ''repo'' ''folder'' [Child (JNode ''a.py'' ''file'' [])]"

definition null_child_tree :: jnode where
  "null_child_tree = JNode ''repo'' ''folder'' [Null_child, Child (JNode ''a.py'' ''file'' [])]"

definition zero_child_tree :: jnode where
  "zero_child_tree = JNode ''repo'' ''folder'' [Falsy_child, Child (JNode ''a.py'' ''file'' [])]"

section \<open>Regular expressions\<close>

text \<open>
  The patterns of the source are written as values of \<open>rx\<close> and matched by derivatives.
  \<open>Atom P\<close> is a character class, \<open>Times\<close> concatenation, \<open>Alt\<close> alternation;
  \<open>r+\<close> is \<open>Plus r\<close> and \<open>r?\<close> is \<open>Opt r\<close>.
\<close>

datatype rx = Zero | One | Atom "char \<Rightarrow> bool" | Alt rx rx | Times rx rx | Star rx

definition Plus :: "rx \<Rightarrow> rx" where
  "Plus r = Times r (Star r)"

definition Opt :: "rx \<Rightarrow> rx" where
  "Opt r = Alt r One"

definition Chr :: "char \<Rightarrow> rx" where
  "Chr c = Atom (\<lambda>d. d = c)"

fun Lit :: "string \<Rightarrow> rx" where
  "Lit [] = One"
| "Lit (c # cs) = Times (Chr c) (Lit cs)"

fun nullable :: "rx \<Rightarrow> bool" where
  "nullable Zero = False"
| "nullable One = True"
| "nullable (Atom P) = False"
| "nullable (Alt r s) = (nullable r \<or> nullable s)"
| "nullable (Times r s) = (nullable r \<and> nullable s)"
| "nullable (Star r) = True"

fun deriv :: "char \<Rightarrow> rx \<Rightarrow> rx" where
  "deriv c Zero = Zero"
| "deriv c One = Zero"
| "deriv c (Atom P) = (if P c then One else Zero)"
| "deriv c (Alt r s) = Alt (deriv c r) (deriv c s)"
| "deriv c (Times r s) =
     (if nullable r then Alt (Times (deriv c r) s) (deriv c s) else Times (deriv c r) s)"
| "deriv c (Star r) = Times (deriv c r) (Star r)"

text \<open>\<open>rx_matches r s\<close>: the whole of \<open>s\<close> matches \<open>r\<close> (the pattern \<open>^r$\<close>; without
  the \<open>m\<close> flag \<open>^\<close> and \<open>$\<close> are the two ends of the input).\<close>

definition rx_matches :: "rx \<Rightarrow> string \<Rightarrow> bool" where
  "rx_matches r s = nullable (fold deriv s r)"

text \<open>The suffixes of a string, the longest first.\<close>

fun suffixes_of :: "string \<Rightarrow> string list" where
  "suffixes_of [] = [[]]"
| "suffixes_of (c # cs) = (c # cs) # suffixes_of cs"

text \<open>\<open>s.match(/r$/)\<close>: the leftmost position from which the rest of the input matches
  \<open>r\<close>; the result is the matched text, \<open>None\<close> is \<open>null\<close>.\<close>

definition rx_match_end :: "rx \<Rightarrow> string \<Rightarrow> string option" where
  "rx_match_end r s = find (rx_matches r) (suffixes_of s)"

definition in_range :: "char \<Rightarrow> char \<Rightarrow> char \<Rightarrow> bool" where
  "in_range lo hi c = (lo \<le> c \<and> c \<le> hi)"

text \<open>
  The decimal digits of a natural number, as the conversion of a number to a string
  writes them. (JavaScript writes an exponent from \<open>10\<^sup>2\<^sup>1\<close> on; the numbers converted here
  are counts of edges and of array entries and stay below it.)
\<close>

fun decimal :: "nat \<Rightarrow> string" where
  "decimal n =
     (if n < 10 then [''0123456789'' ! n]
      else decimal (n div 10) @ [''0123456789'' ! (n mod 10)])"

declare decimal.simps [simp del]

section \<open>Dependency graph (DependencyGraph component)\<close>

subsection \<open>JavaScript values\<close>

text \<open>
  The fields of an input node hold a string or are absent; \<open>None\<close> is \<open>undefined\<close>. Such a
  value is truthy when it is a non-empty string; \<open>a || b\<close> is \<open>a\<close> when \<open>a\<close> is truthy and
  \<open>b\<close> otherwise.
\<close>

definition truthy :: "string option \<Rightarrow> bool" where
  "truthy v = (case v of None \<Rightarrow> False | Some s \<Rightarrow> s \<noteq> [])"

definition js_or :: "string option \<Rightarrow> string option \<Rightarrow> string option" where
  "js_or a b = (if truthy a then a else b)"

subsection \<open>Plain objects used as dictionaries\<close>

text \<open>
  \<open>nodeMap\<close>, \<open>connectionCounts\<close> and \<open>byType\<close> are object literals \<open>{}\<close>: they have their own
  properties, and inherit those of \<open>Object.prototype\<close>. A value read from them, or stored
  in them, is \<open>undefined\<close>, a string, a number (a count), or a member of
  \<open>Object.prototype\<close>: \<open>Member k\<close> is the value of the inherited property \<open>k\<close>, a built-in
  function, or the object \<open>Object.prototype\<close> itself when \<open>k\<close> is \<open>__proto__\<close>.
\<close>

datatype pval = Undef | Text string | Count nat | Member string

text \<open>The names of the properties of \<open>Object.prototype\<close>.\<close>

definition proto_names :: "string list" where
  "proto_names =
     [''constructor'', ''__defineGetter__'', ''__defineSetter__'', ''hasOwnProperty'',
      ''__lookupGetter__'', ''__lookupSetter__'', ''isPrototypeOf'', ''propertyIsEnumerable'',
      ''toString'', ''valueOf'', ''__proto__'', ''toLocaleString'']"

fun truthy_pval :: "pval \<Rightarrow> bool" where
  "truthy_pval Undef = False"
| "truthy_pval (Text s) = (s \<noteq> [])"
| "truthy_pval (Count n) = (n \<noteq> 0)"
| "truthy_pval (Member k) = True"

text \<open>
  An object is the association list of its own properties, in insertion order.
  \<open>obj[k]\<close> is the own property when there is one, else the inherited member when \<open>k\<close>
  names one, else \<open>undefined\<close>.
\<close>

type_synonym dict = "(string \<times> pval) list"

definition obj_get :: "dict \<Rightarrow> string \<Rightarrow> pval" where
  "obj_get obj k =
     (case map_of obj k of
        Some v \<Rightarrow> v
      | None \<Rightarrow> if k \<in> set proto_names then Member k else Undef)"

text \<open>
  \<open>obj[k] = v\<close> for a value \<open>v\<close> that is \<open>undefined\<close>, a string or a number, the only values
  the component stores. It creates or overwrites the own property \<open>k\<close> (a new key goes to
  the end, an existing key keeps its place), except for \<open>__proto__\<close>: that assignment
  runs the setter of \<open>Object.prototype\<close>, which ignores a value that is not an object or
  \<open>null\<close>, and the object is unchanged.
\<close>

definition obj_put :: "string \<Rightarrow> pval \<Rightarrow> dict \<Rightarrow> dict" where
  "obj_put k v obj = (if k = ''__proto__'' then obj else AList.update k v obj)"

text \<open>
  The text of a member of \<open>Object.prototype\<close> when it is converted to a string:
  \<open>[object Object]\<close> for \<open>Object.prototype\<close> itself, and for a built-in function the source
  text that the engine prints, which the language leaves to the engine: it is the
  parameter \<open>native\<close>, from the name of the property to the text.
\<close>

definition member_text :: "(string \<Rightarrow> string) \<Rightarrow> string \<Rightarrow> string" where
  "member_text native k = (if k = ''__proto__'' then ''[object Object]'' else native k)"

text \<open>A value used as a property key is converted to a string.\<close>

definition to_key :: "(string \<Rightarrow> string) \<Rightarrow> pval \<Rightarrow> string" where
  "to_key native v =
     (case v of
        Undef \<Rightarrow> ''undefined''
      | Text s \<Rightarrow> s
      | Count n \<Rightarrow> decimal n
      | Member k \<Rightarrow> member_text native k)"

text \<open>
  \<open>(v || 0) + d\<close> for a number \<open>d\<close>: a sum when \<open>v\<close> is falsy or a number, and the
  concatenation of the texts when \<open>v\<close> is a string or a member of \<open>Object.prototype\<close>.
\<close>

definition incremented :: "(string \<Rightarrow> string) \<Rightarrow> pval \<Rightarrow> nat \<Rightarrow> pval" where
  "incremented native v d =
     (case v of
        Undef \<Rightarrow> Count d
      | Count n \<Rightarrow> Count (n + d)
      | Text s \<Rightarrow> if s = [] then Count d else Text (s @ decimal d)
      | Member k \<Rightarrow> Text (member_text native k @ decimal d))"

text \<open>\<open>obj[k] = (obj[k] || 0) + d\<close>.\<close>

definition add_count :: "(string \<Rightarrow> string) \<Rightarrow> string \<Rightarrow> nat \<Rightarrow> dict \<Rightarrow> dict" where
  "add_count native k d obj = obj_put k (incremented native (obj_get obj k) d) obj"

subsection \<open>Input and output of \<open>processedData\<close>\<close>

text \<open>
  A node and an edge of the backend format, with the fields the component reads. The ids
  are used as property keys only and are modelled by their key strings (\<open>'undefined'\<close> for
  an id that is absent). A \<open>path\<close>, \<open>name\<close> or \<open>type\<close> that holds a falsy value is as
  good as absent. A \<open>path\<close> or \<open>name\<close> that is truthy and not a string has no term here:
  \<open>processedData\<close> throws on it, as \<open>path.match\<close> is then not a function.
\<close>

record node =
  node_id :: string
  node_path :: "string option"
  node_name :: "string option"
  node_type :: "string option"

record edge =
  source :: string
  target :: string

text \<open>
  The \<open>data\<close> prop:
  \<open>NoData\<close> when \<open>!data || typeof data !== 'object'\<close>;
  \<open>Backend ns es\<close>, an object whose \<open>nodes\<close> is the array \<open>ns\<close> of node objects, \<open>es\<close> being
  its \<open>edges\<close>, or \<open>None\<close> when that is not an array;
  \<open>Legacy kvs\<close>, an object of the shape \<open>{ file: [imports] }\<close>, \<open>kvs\<close> being
  \<open>Object.entries(data)\<close>: under each key an array of strings, or \<open>None\<close> for a value that
  is not an array.
\<close>

datatype deps =
  NoData
  | Backend "node list" "edge list option"
  | Legacy "(string \<times> string list option) list"

record pnode =
  pfile :: "string option"
  pimports :: "pval list"
  pid :: "string option"
  ptype :: "string option"

record pedge =
  efrom :: pval
  eto :: pval

record processed =
  nodes :: "pnode list"
  edges :: "pedge list"
  connectionCounts :: dict
  byType :: dict

subsection \<open>\<open>getFileExtension\<close>\<close>

text \<open>The pattern \<open>/\.[^.]+$/\<close>.\<close>

definition extension_pattern :: rx where
  "extension_pattern = Times (Chr CHR ''.'') (Plus (Atom (\<lambda>c. c \<noteq> CHR ''.'')))"

text \<open>\<open>path.match\<close> throws a TypeError when \<open>path\<close> is \<open>undefined\<close>.\<close>

definition getFileExtension :: "string option \<Rightarrow> error + string" where
  "getFileExtension path =
     (case path of
        None \<Rightarrow> Inl TypeError
      | Some p \<Rightarrow> (case rx_match_end extension_pattern p of None \<Rightarrow> Inr [] | Some m \<Rightarrow> Inr m))"

subsection \<open>\<open>processedData\<close>, backend format\<close>

text \<open>\<open>node.path || node.name\<close>.\<close>

definition node_file :: "node \<Rightarrow> string option" where
  "node_file n = js_or (node_path n) (node_name n)"

text \<open>A string or \<open>undefined\<close> as a \<open>pval\<close>.\<close>

definition file_val :: "string option \<Rightarrow> pval" where
  "file_val f = (case f of None \<Rightarrow> Undef | Some s \<Rightarrow> Text s)"

text \<open>
  The callback of \<open>data.nodes.map\<close>. \<open>getFileExtension\<close> is evaluated only when
  \<open>node.type\<close> is falsy; \<open>ext.replace('.', '')\<close> removes the first dot.
\<close>

definition make_node :: "node \<Rightarrow> error + pnode" where
  "make_node n =
     (if truthy (node_type n)
      then Inr \<lparr>pfile = node_file n, pimports = [], pid = Some (node_id n), ptype = node_type n\<rparr>
      else (case getFileExtension (node_file n) of
              Inl e \<Rightarrow> Inl e
            | Inr ext \<Rightarrow>
                Inr \<lparr>pfile = node_file n, pimports = [], pid = Some (node_id n),
                     ptype = Some (remove1 CHR ''.'' ext)\<rparr>))"

text \<open>\<open>nodeMap\<close>: \<open>nodeMap[node.id] = node.path || node.name\<close> for every node in turn.
  \<open>nodeMap[id]\<close> is then \<open>obj_get\<close>.\<close>

definition nodeMap :: "node list \<Rightarrow> dict" where
  "nodeMap ns = fold (\<lambda>n m. obj_put (node_id n) (file_val (node_file n)) m) ns []"

text \<open>
  \<open>sourceNode.imports.push(targetFile)\<close> for
  \<open>sourceNode = nodes.find(n => n.file === sourceFile)\<close>: the first node with that file
  gets the import; nothing changes when there is none.
\<close>

fun push_import :: "pval \<Rightarrow> pval \<Rightarrow> pnode list \<Rightarrow> pnode list" where
  "push_import f t [] = []"
| "push_import f t (n # ns) =
     (if file_val (pfile n) = f then n\<lparr>pimports := pimports n @ [t]\<rparr> # ns
      else n # push_import f t ns)"

text \<open>The callback of \<open>data.edges.forEach\<close>, on the three variables it updates.\<close>

definition add_edge :: "(string \<Rightarrow> string) \<Rightarrow> dict \<Rightarrow> edge \<Rightarrow> processed \<Rightarrow> processed" where
  "add_edge native m e st =
     (let sourceFile = obj_get m (source e);
          targetFile = obj_get m (target e)
      in st\<lparr>nodes := (if truthy_pval targetFile
                       then push_import sourceFile targetFile (nodes st) else nodes st),
             connectionCounts :=
               add_count native (to_key native targetFile) 1
                 (add_count native (to_key native sourceFile) 1 (connectionCounts st)),
             edges := edges st @ [\<lparr>efrom = sourceFile, eto = targetFile\<rparr>]\<rparr>)"

subsection \<open>\<open>processedData\<close>, legacy format\<close>

text \<open>The callback of \<open>Object.entries(data).forEach\<close>; an entry whose value is not an
  array is skipped.\<close>

definition add_import :: "(string \<Rightarrow> string) \<Rightarrow> string \<Rightarrow> string \<Rightarrow> processed \<Rightarrow> processed" where
  "add_import native f imp st =
     st\<lparr>edges := edges st @ [\<lparr>efrom = Text f, eto = Text imp\<rparr>],
        connectionCounts := add_count native imp 1 (connectionCounts st)\<rparr>"

definition add_entry ::
  "(string \<Rightarrow> string) \<Rightarrow> string \<times> string list option \<Rightarrow> processed \<Rightarrow> processed" where
  "add_entry native kv st =
     (case snd kv of
        None \<Rightarrow> st
      | Some imps \<Rightarrow>
          fold (add_import native (fst kv)) imps
            (st\<lparr>nodes := nodes st @ [\<lparr>pfile = Some (fst kv), pimports = map Text imps,
                                      pid = None, ptype = None\<rparr>],
                connectionCounts :=
                  add_count native (fst kv) (length imps) (connectionCounts st)\<rparr>))"

subsection \<open>\<open>processedData\<close>\<close>

text \<open>The callback of \<open>nodes.forEach\<close> that counts by file type:
  \<open>ext = getFileExtension(file) || '.other'\<close>.\<close>

definition count_type :: "(string \<Rightarrow> string) \<Rightarrow> pnode \<Rightarrow> dict \<Rightarrow> error + dict" where
  "count_type native n bt =
     (case getFileExtension (pfile n) of
        Inl e \<Rightarrow> Inl e
      | Inr ext \<Rightarrow> Inr (add_count native (if ext = [] then ''.other'' else ext) 1 bt))"

definition finish :: "(string \<Rightarrow> string) \<Rightarrow> processed \<Rightarrow> error + processed" where
  "finish native st =
     (case fold_err (count_type native) (nodes st) [] of
        Inl e \<Rightarrow> Inl e
      | Inr bt \<Rightarrow> Inr (st\<lparr>byType := bt\<rparr>))"

text \<open>The edges iterated over: none when \<open>data.edges\<close> is not an array.\<close>

definition input_edges :: "edge list option \<Rightarrow> edge list" where
  "input_edges es = (case es of None \<Rightarrow> [] | Some l \<Rightarrow> l)"

definition empty_processed :: processed where
  "empty_processed = \<lparr>nodes = [], edges = [], connectionCounts = [], byType = []\<rparr>"

text \<open>The branch taken when \<open>data.nodes\<close> is an array.\<close>

definition backend :: "(string \<Rightarrow> string) \<Rightarrow> node list \<Rightarrow> edge list option \<Rightarrow> error + processed" where
  "backend native ns es =
     (case map_err make_node ns of
        Inl e \<Rightarrow> Inl e
      | Inr pns \<Rightarrow>
          finish native (fold (add_edge native (nodeMap ns)) (input_edges es)
                    (empty_processed\<lparr>nodes := pns\<rparr>)))"

text \<open>
  An object of the legacy shape may itself have a key \<open>nodes\<close> that holds an array; the
  test \<open>data.nodes && Array.isArray(data.nodes)\<close> then sends it down the backend branch,
  with strings where that branch expects node and edge objects. Every field read from a
  string (\<open>path\<close>, \<open>name\<close>, \<open>id\<close>, \<open>type\<close>, \<open>source\<close>, \<open>target\<close>) is \<open>undefined\<close>, and
  \<open>undefined\<close> as a key is \<open>'undefined'\<close>.
\<close>

definition as_node :: "string \<Rightarrow> node" where
  "as_node s = \<lparr>node_id = ''undefined'', node_path = None, node_name = None, node_type = None\<rparr>"

definition as_edge :: "string \<Rightarrow> edge" where
  "as_edge s = \<lparr>source = ''undefined'', target = ''undefined''\<rparr>"

definition entry_array :: "(string \<times> string list option) list \<Rightarrow> string \<Rightarrow> string list option" where
  "entry_array kvs k = (case map_of kvs k of None \<Rightarrow> None | Some v \<Rightarrow> v)"

text \<open>
  The value of the \<open>useMemo\<close>. The early return also carries a field \<open>stats: {}\<close> that
  nothing reads.
\<close>

fun processedData :: "(string \<Rightarrow> string) \<Rightarrow> deps \<Rightarrow> error + processed" where
  "processedData native NoData = Inr empty_processed"
| "processedData native (Backend ns es) = backend native ns es"
| "processedData native (Legacy kvs) =
     (case entry_array kvs ''nodes'' of
        Some arr \<Rightarrow>
          backend native (map as_node arr) (map_option (map as_edge) (entry_array kvs ''edges''))
      | None \<Rightarrow> finish native (fold (add_entry native) kvs empty_processed))"

subsection \<open>What the component shows\<close>

text \<open>The \<open>connectionCount\<close> prop of a node: \<open>processedData.connectionCounts[file] || 0\<close>.\<close>

definition connectionCount :: "(string \<Rightarrow> string) \<Rightarrow> processed \<Rightarrow> string option \<Rightarrow> pval" where
  "connectionCount native pd f =
     (let v = obj_get (connectionCounts pd) (to_key native (file_val f))
      in if truthy_pval v then v else Count 0)"

text \<open>
  The number shown before \<open>connections\<close> for an input in backend format:
  \<open>processedData.edges.length\<close>, unless \<open>data.nodes\<close> is empty, when the component
  renders \<open>No dependency data available\<close> in place of the graph (\<open>None\<close>).
\<close>

definition shown_connections :: "node list \<Rightarrow> processed \<Rightarrow> nat option" where
  "shown_connections ns pd = (if ns = [] then None else Some (length (edges pd)))"

text \<open>
  \<open>selectedImports\<close> and \<open>selectedImportedBy\<close>, as functions of the state
  \<open>selectedFile\<close> (\<open>None\<close> is \<open>null\<close>) and of \<open>processedData.nodes\<close>.
\<close>

definition selectedImports :: "string option \<Rightarrow> pnode list \<Rightarrow> pval list" where
  "selectedImports selectedFile ns =
     (if \<not> truthy selectedFile then []
      else (case find (\<lambda>n. pfile n = selectedFile) ns of None \<Rightarrow> [] | Some n \<Rightarrow> pimports n))"

definition selectedImportedBy :: "string option \<Rightarrow> pnode list \<Rightarrow> string option list" where
  "selectedImportedBy selectedFile ns =
     (if \<not> truthy selectedFile then []
      else map pfile (filter (\<lambda>n. file_val selectedFile \<in> set (pimports n)) ns))"

subsection \<open>Notions used in the statements about the graph\<close>

text \<open>Every edge's source and target id occur among the node ids.\<close>

definition edges_reference_nodes :: "node list \<Rightarrow> edge list option \<Rightarrow> bool" where
  "edges_reference_nodes ns es =
     list_all (\<lambda>e. source e \<in> node_id ` set ns \<and> target e \<in> node_id ` set ns)
       (input_edges es)"

text \<open>A value is the file of a node of the processed node list.\<close>

definition is_node_file :: "processed \<Rightarrow> pval \<Rightarrow> bool" where
  "is_node_file pd v = (v \<in> file_val ` pfile ` set (nodes pd))"

text \<open>No processed edge is dangling: both endpoints are the file of a processed node.\<close>

definition no_dangling :: "processed \<Rightarrow> bool" where
  "no_dangling pd =
     list_all (\<lambda>e. is_node_file pd (efrom e) \<and> is_node_file pd (eto e)) (edges pd)"

text \<open>An id that \<open>nodeMap\<close> resolves to the file of a node: the id of a node, other than
  \<open>__proto__\<close>.\<close>

definition resolvable :: "node list \<Rightarrow> string \<Rightarrow> bool" where
  "resolvable ns k = (k \<in> node_id ` set ns \<and> k \<noteq> ''__proto__'')"

text \<open>The processed edge of an input edge.\<close>

definition resolve :: "dict \<Rightarrow> edge \<Rightarrow> pedge" where
  "resolve m e = \<lparr>efrom = obj_get m (source e), eto = obj_get m (target e)\<rparr>"

text \<open>Degrees of a node, given by its id, counted over the input edges.\<close>

definition out_degree :: "edge list \<Rightarrow> string \<Rightarrow> nat" where
  "out_degree es k = length (filter (\<lambda>e. source e = k) es)"

definition in_degree :: "edge list \<Rightarrow> string \<Rightarrow> nat" where
  "in_degree es k = length (filter (\<lambda>e. target e = k) es)"

text \<open>Every edge has a resolvable id at both ends.\<close>

definition all_resolvable :: "node list \<Rightarrow> edge list \<Rightarrow> bool" where
  "all_resolvable ns es =
     list_all (\<lambda>e. resolvable ns (source e) \<and> resolvable ns (target e)) es"

text \<open>In-degree plus out-degree.\<close>

definition degree :: "edge list \<Rightarrow> string \<Rightarrow> nat" where
  "degree es k = in_degree es k + out_degree es k"

text \<open>
  The node \<open>n\<close> has the file \<open>f\<close>, and its id stands for that file and for no other:
  the nodes with the id of \<open>n\<close> are the nodes with the file \<open>f\<close>, the id is not
  \<open>__proto__\<close>, and \<open>f\<close> is neither the name of a property of \<open>Object.prototype\<close> nor the
  text \<open>[object Object]\<close>.
\<close>

definition identifies :: "node list \<Rightarrow> node \<Rightarrow> string \<Rightarrow> bool" where
  "identifies ns n f \<longleftrightarrow>
     node_file n = Some f
   \<and> (\<forall>m\<in>set ns. (node_id m = node_id n) = (node_file m = node_file n))
   \<and> node_id n \<noteq> ''__proto__''
   \<and> f \<noteq> ''[object Object]''
   \<and> f \<notin> set proto_names"

text \<open>The entry of a dictionary for a count \<open>c\<close> that is never stored as \<open>0\<close>: none when
  \<open>c\<close> is \<open>0\<close>.\<close>

definition count_entry :: "nat \<Rightarrow> pval option" where
  "count_entry c = (if c = 0 then None else Some (Count c))"

text \<open>The number that a stored value stands for.\<close>

definition count_value :: "pval \<Rightarrow> nat" where
  "count_value v = (case v of Count c \<Rightarrow> c | _ \<Rightarrow> 0)"

text \<open>The extension of a path in closed form: the text from the last dot on, when the
  path has a dot that is not its last character, and the empty string otherwise.\<close>

definition last_extension :: "string \<Rightarrow> string" where
  "last_extension p =
     (let suf = rev (takeWhile (\<lambda>c. c \<noteq> CHR ''.'') (rev p))
      in if CHR ''.'' \<in> set p \<and> suf \<noteq> [] then CHR ''.'' # suf else [])"

text \<open>The key of \<open>byType\<close> for a path, in closed form.\<close>

definition extension_key :: "string \<Rightarrow> string" where
  "extension_key p = (if last_extension p = [] then ''.other'' else last_extension p)"

text \<open>The nodes counted under a key of \<open>byType\<close>.\<close>

definition nodes_of_type :: "node list \<Rightarrow> string \<Rightarrow> node list" where
  "nodes_of_type ns k =
     filter (\<lambda>n. case node_file n of None \<Rightarrow> False | Some p \<Rightarrow> extension_key p = k) ns"

text \<open>
  For comparison, the extension of a file as it is usually understood: that of the file
  name, the part of the path after the last slash.
\<close>

definition file_name :: "string \<Rightarrow> string" where
  "file_name p = rev (takeWhile (\<lambda>c. c \<noteq> CHR ''/'') (rev p))"

definition file_name_extension :: "string \<Rightarrow> string" where
  "file_name_extension p = last_extension (file_name p)"

text \<open>The increments of a dictionary of counts, as a list of keys with the number added,
  and the dictionary they build.\<close>

definition apply_increments ::
  "(string \<Rightarrow> string) \<Rightarrow> (string \<times> nat) list \<Rightarrow> dict \<Rightarrow> dict" where
  "apply_increments native incs obj = fold (\<lambda>p. add_count native (fst p) (snd p)) incs obj"

definition total_for :: "string \<Rightarrow> (string \<times> nat) list \<Rightarrow> nat" where
  "total_for k incs = sum_list (map snd (filter (\<lambda>p. fst p = k) incs))"

definition edge_increments :: "(string \<Rightarrow> string) \<Rightarrow> dict \<Rightarrow> edge \<Rightarrow> (string \<times> nat) list" where
  "edge_increments native m e =
     [(to_key native (obj_get m (source e)), 1), (to_key native (obj_get m (target e)), 1)]"

definition type_increments :: "string option list \<Rightarrow> (string \<times> nat) list" where
  "type_increments fs =
     map (\<lambda>f. (case f of None \<Rightarrow> [] | Some p \<Rightarrow> extension_key p, 1)) fs"

definition entry_increments :: "string \<times> string list option \<Rightarrow> (string \<times> nat) list" where
  "entry_increments kv =
     (case snd kv of
        None \<Rightarrow> []
      | Some imps \<Rightarrow> (fst kv, length imps) # map (\<lambda>imp. (imp, 1)) imps)"

text \<open>A dictionary holds the count \<open>c\<close> under a key: as that number, or as no entry when
  \<open>c\<close> is \<open>0\<close>.\<close>

definition holds_count :: "dict \<Rightarrow> string \<Rightarrow> nat \<Rightarrow> bool" where
  "holds_count obj k c = (map_of obj k = Some (Count c) \<or> map_of obj k = None \<and> c = 0)"

text \<open>Only the first node with a given file can have imports; the invariant behind
  \<open>nodes.find\<close>.\<close>

fun owner_inv :: "pnode list \<Rightarrow> bool" where
  "owner_inv [] = True"
| "owner_inv (n # ns) =
     ((\<forall>m\<in>set ns. pfile m = pfile n \<longrightarrow> pimports m = []) \<and> owner_inv ns)"

text \<open>The node and the edges that one entry of the legacy format adds.\<close>

definition entry_nodes :: "string \<times> string list option \<Rightarrow> pnode list" where
  "entry_nodes kv =
     (case snd kv of
        None \<Rightarrow> []
      | Some imps \<Rightarrow>
          [\<lparr>pfile = Some (fst kv), pimports = map Text imps, pid = None, ptype = None\<rparr>])"

definition entry_edges :: "string \<times> string list option \<Rightarrow> pedge list" where
  "entry_edges kv =
     (case snd kv of
        None \<Rightarrow> []
      | Some imps \<Rightarrow> map (\<lambda>imp. \<lparr>efrom = Text (fst kv), eto = Text imp\<rparr>) imps)"

text \<open>\<open>Object.entries\<close> of an object lists no key twice.\<close>

definition distinct_keys :: "deps \<Rightarrow> bool" where
  "distinct_keys d = (case d of Legacy kvs \<Rightarrow> distinct (map fst kvs) | _ \<Rightarrow> True)"

text \<open>
  The graph that a backend input describes when its ids identify its nodes: the file of
  the node with a given id, and the edges as pairs of files.
\<close>

definition id_file :: "node list \<Rightarrow> string \<Rightarrow> pval" where
  "id_file ns k =
     (case find (\<lambda>n. node_id n = k) ns of
        None \<Rightarrow> Undef
      | Some n \<Rightarrow> file_val (node_file n))"

definition graph_edges :: "node list \<Rightarrow> edge list \<Rightarrow> pedge list" where
  "graph_edges ns es =
     map (\<lambda>e. \<lparr>efrom = id_file ns (source e), eto = id_file ns (target e)\<rparr>) es"

text \<open>
  A legacy mapping describes the graph of a backend input whose node ids map bijectively
  to files: its keys are the files of the nodes, and the array under a file lists, in any
  order, the targets of the edges that leave that file, one entry per edge.
\<close>

definition describes_same_graph ::
  "(string \<times> string list option) list \<Rightarrow> node list \<Rightarrow> edge list \<Rightarrow> bool" where
  "describes_same_graph kvs ns es \<longleftrightarrow>
     distinct (map node_id ns) \<and> distinct (map node_file ns)
   \<and> distinct (map fst kvs)
   \<and> Some ` fst ` set kvs = node_file ` set ns
   \<and> list_all (\<lambda>kv. case snd kv of
         None \<Rightarrow> False
       | Some imps \<Rightarrow>
           mset (map Text imps)
             = mset (map eto (filter (\<lambda>e. efrom e = Text (fst kv)) (graph_edges ns es)))) kvs"

text \<open>No edge has the id \<open>__proto__\<close> at an end.\<close>

definition no_proto_endpoint :: "edge list \<Rightarrow> bool" where
  "no_proto_endpoint es =
     list_all (\<lambda>e. source e \<noteq> ''__proto__'' \<and> target e \<noteq> ''__proto__'') es"

text \<open>No key of a legacy mapping is the name of a property of \<open>Object.prototype\<close>, or
  \<open>nodes\<close>.\<close>

definition plain_files :: "(string \<times> string list option) list \<Rightarrow> bool" where
  "plain_files kvs = list_all (\<lambda>kv. fst kv \<notin> set proto_names \<and> fst kv \<noteq> ''nodes'') kvs"

subsection \<open>Example inputs\<close>

text \<open>The source text of the built-in functions as V8 prints it.\<close>

definition v8_native :: "string \<Rightarrow> string" where
  "v8_native k =
     ''function '' @ (if k = ''constructor'' then ''Object'' else k) @ ''() { [native code] }''"

text \<open>
  Two files, the first importing the second twice, in both formats, and the result of
  \<open>processedData\<close> on the backend format.
\<close>

definition example_nodes :: "node list" where
  "example_nodes =
     [\<lparr>node_id = ''1'', node_path = Some ''src/a.py'', node_name = None, node_type = Some ''py''\<rparr>,
      \<lparr>node_id = ''2'', node_path = None, node_name = Some ''b.py'', node_type = None\<rparr>]"

definition example_edges :: "edge list" where
  "example_edges = [\<lparr>source = ''1'', target = ''2''\<rparr>, \<lparr>source = ''1'', target = ''2''\<rparr>]"

definition example_processed :: processed where
  "example_processed =
     \<lparr>nodes =
        [\<lparr>pfile = Some ''src/a.py'', pimports = [Text ''b.py'', Text ''b.py''], pid = Some ''1'',
          ptype = Some ''py''\<rparr>,
         \<lparr>pfile = Some ''b.py'', pimports = [], pid = Some ''2'', ptype = Some ''py''\<rparr>],
      edges =
        [\<lparr>efrom = Text ''src/a.py'', eto = Text ''b.py''\<rparr>,
         \<lparr>efrom = Text ''src/a.py'', eto = Text ''b.py''\<rparr>],
      connectionCounts = [(''src/a.py'', Count 2), (''b.py'', Count 2)],
      byType = [(''.py'', Count 2)]\<rparr>"

definition example_legacy :: "(string \<times> string list option) list" where
  "example_legacy = [(''src/a.py'', Some [''b.py'', ''b.py'']), (''b.py'', Some [])]"

text \<open>One file; an edge to an id that is not the id of a node; no edge at all, in both
  formats.\<close>

definition single_node :: "node list" where
  "single_node =
     [\<lparr>node_id = ''1'', node_path = Some ''a.py'', node_name = None, node_type = None\<rparr>]"

definition unresolved_edge :: "edge list" where
  "unresolved_edge = [\<lparr>source = ''1'', target = ''2''\<rparr>]"

definition dangling_processed :: processed where
  "dangling_processed =
     \<lparr>nodes = [\<lparr>pfile = Some ''a.py'', pimports = [], pid = Some ''1'', ptype = Some ''py''\<rparr>],
      edges = [\<lparr>efrom = Text ''a.py'', eto = Undef\<rparr>],
      connectionCounts = [(''a.py'', Count 1), (''undefined'', Count 1)],
      byType = [(''.py'', Count 1)]\<rparr>"

definition isolated_backend :: processed where
  "isolated_backend =
     \<lparr>nodes = [\<lparr>pfile = Some ''a.py'', pimports = [], pid = Some ''1'', ptype = Some ''py''\<rparr>],
      edges = [], connectionCounts = [], byType = [(''.py'', Count 1)]\<rparr>"

definition isolated_legacy :: processed where
  "isolated_legacy =
     \<lparr>nodes = [\<lparr>pfile = Some ''a.py'', pimports = [], pid = None, ptype = None\<rparr>],
      edges = [], connectionCounts = [(''a.py'', Count 0)], byType = [(''.py'', Count 1)]\<rparr>"

text \<open>One file whose node has the id \<open>__proto__\<close>, with an edge from it to itself.\<close>

definition proto_node :: "node list" where
  "proto_node =
     [\<lparr>node_id = ''__proto__'', node_path = Some ''a.py'', node_name = None, node_type = None\<rparr>]"

definition proto_edge :: "edge list" where
  "proto_edge = [\<lparr>source = ''__proto__'', target = ''__proto__''\<rparr>]"

definition proto_processed :: processed where
  "proto_processed =
     \<lparr>nodes = [\<lparr>pfile = Some ''a.py'', pimports = [], pid = Some ''__proto__'',
                ptype = Some ''py''\<rparr>],
      edges = [\<lparr>efrom = Member ''__proto__'', eto = Member ''__proto__''\<rparr>],
      connectionCounts = [(''[object Object]'', Count 2)],
      byType = [(''.py'', Count 1)]\<rparr>"

definition proto_legacy :: "(string \<times> string list option) list" where
  "proto_legacy = [(''a.py'', Some [''a.py''])]"

definition proto_legacy_processed :: processed where
  "proto_legacy_processed =
     \<lparr>nodes = [\<lparr>pfile = Some ''a.py'', pimports = [Text ''a.py''], pid = None, ptype = None\<rparr>],
      edges = [\<lparr>efrom = Text ''a.py'', eto = Text ''a.py''\<rparr>],
      connectionCounts = [(''a.py'', Count 2)],
      byType = [(''.py'', Count 1)]\<rparr>"

text \<open>Two nodes with the same file, and two nodes with the same id, each with one edge.\<close>

definition shared_file_nodes :: "node list" where
  "shared_file_nodes =
     [\<lparr>node_id = ''1'', node_path = Some ''a.py'', node_name = None, node_type = None\<rparr>,
      \<lparr>node_id = ''2'', node_path = Some ''a.py'', node_name = None, node_type = None\<rparr>]"

definition shared_file_edge :: "edge list" where
  "shared_file_edge = [\<lparr>source = ''1'', target = ''2''\<rparr>]"

definition shared_file_processed :: processed where
  "shared_file_processed =
     \<lparr>nodes =
        [\<lparr>pfile = Some ''a.py'', pimports = [Text ''a.py''], pid = Some ''1'', ptype = Some ''py''\<rparr>,
         \<lparr>pfile = Some ''a.py'', pimports = [], pid = Some ''2'', ptype = Some ''py''\<rparr>],
      edges = [\<lparr>efrom = Text ''a.py'', eto = Text ''a.py''\<rparr>],
      connectionCounts = [(''a.py'', Count 2)],
      byType = [(''.py'', Count 2)]\<rparr>"

definition shared_id_nodes :: "node list" where
  "shared_id_nodes =
     [\<lparr>node_id = ''1'', node_path = Some ''a.py'', node_name = None, node_type = None\<rparr>,
      \<lparr>node_id = ''1'', node_path = Some ''b.py'', node_name = None, node_type = None\<rparr>]"

definition shared_id_edge :: "edge list" where
  "shared_id_edge = [\<lparr>source = ''1'', target = ''1''\<rparr>]"

definition shared_id_processed :: processed where
  "shared_id_processed =
     \<lparr>nodes =
        [\<lparr>pfile = Some ''a.py'', pimports = [], pid = Some ''1'', ptype = Some ''py''\<rparr>,
         \<lparr>pfile = Some ''b.py'', pimports = [Text ''b.py''], pid = Some ''1'', ptype = Some ''py''\<rparr>],
      edges = [\<lparr>efrom = Text ''b.py'', eto = Text ''b.py''\<rparr>],
      connectionCounts = [(''b.py'', Count 2)],
      byType = [(''.py'', Count 2)]\<rparr>"

text \<open>A file named \<open>constructor\<close> that imports another file twice, in both formats.\<close>

definition constructor_nodes :: "node list" where
  "constructor_nodes =
     [\<lparr>node_id = ''1'', node_path = Some ''constructor'', node_name = None, node_type = None\<rparr>,
      \<lparr>node_id = ''2'', node_path = Some ''b.py'', node_name = None, node_type = None\<rparr>]"

definition constructor_legacy :: "(string \<times> string list option) list" where
  "constructor_legacy = [(''constructor'', Some [''b.py'', ''b.py'']), (''b.py'', Some [])]"

definition constructor_backend_processed :: processed where
  "constructor_backend_processed =
     \<lparr>nodes =
        [\<lparr>pfile = Some ''constructor'', pimports = [Text ''b.py'', Text ''b.py''],
          pid = Some ''1'', ptype = Some []\<rparr>,
         \<lparr>pfile = Some ''b.py'', pimports = [], pid = Some ''2'', ptype = Some ''py''\<rparr>],
      edges =
        [\<lparr>efrom = Text ''constructor'', eto = Text ''b.py''\<rparr>,
         \<lparr>efrom = Text ''constructor'', eto = Text ''b.py''\<rparr>],
      connectionCounts =
        [(''constructor'', Text ''function Object() { [native code] }11''),
         (''b.py'', Count 2)],
      byType = [(''.other'', Count 1), (''.py'', Count 1)]\<rparr>"

definition constructor_legacy_processed :: processed where
  "constructor_legacy_processed =
     \<lparr>nodes =
        [\<lparr>pfile = Some ''constructor'', pimports = [Text ''b.py'', Text ''b.py''],
          pid = None, ptype = None\<rparr>,
         \<lparr>pfile = Some ''b.py'', pimports = [], pid = None, ptype = None\<rparr>],
      edges =
        [\<lparr>efrom = Text ''constructor'', eto = Text ''b.py''\<rparr>,
         \<lparr>efrom = Text ''constructor'', eto = Text ''b.py''\<rparr>],
      connectionCounts =
        [(''constructor'', Text ''function Object() { [native code] }2''),
         (''b.py'', Count 2)],
      byType = [(''.other'', Count 1), (''.py'', Count 1)]\<rparr>"

text \<open>A file named \<open>[object Object]\<close> beside the node with the id \<open>__proto__\<close>.\<close>

definition object_nodes :: "node list" where
  "object_nodes =
     [\<lparr>node_id = ''__proto__'', node_path = Some ''a.py'', node_name = None, node_type = None\<rparr>,
      \<lparr>node_id = ''2'', node_path = Some ''[object Object]'', node_name = None,
       node_type = None\<rparr>]"

definition object_processed :: processed where
  "object_processed =
     \<lparr>nodes =
        [\<lparr>pfile = Some ''a.py'', pimports = [], pid = Some ''__proto__'', ptype = Some ''py''\<rparr>,
         \<lparr>pfile = Some ''[object Object]'', pimports = [], pid = Some ''2'', ptype = Some []\<rparr>],
      edges = [\<lparr>efrom = Member ''__proto__'', eto = Member ''__proto__''\<rparr>],
      connectionCounts = [(''[object Object]'', Count 2)],
      byType = [(''.py'', Count 1), (''.other'', Count 1)]\<rparr>"

text \<open>A file without extension in a directory whose name has a dot.\<close>

definition readme_node :: "node list" where
  "readme_node =
     [\<lparr>node_id = ''1'', node_path = Some ''v1.2/README'', node_name = None, node_type = None\<rparr>]"

definition readme_processed :: processed where
  "readme_processed =
     \<lparr>nodes = [\<lparr>pfile = Some ''v1.2/README'', pimports = [], pid = Some ''1'',
                ptype = Some ''2/README''\<rparr>],
      edges = [], connectionCounts = [], byType = [(''.2/README'', Count 1)]\<rparr>"

text \<open>A file named \<open>nodes\<close>, in both formats.\<close>

definition nodes_node :: "node list" where
  "nodes_node =
     [\<lparr>node_id = ''1'', node_path = Some ''nodes'', node_name = None, node_type = None\<rparr>]"

definition nodes_legacy :: "(string \<times> string list option) list" where
  "nodes_legacy = [(''nodes'', Some [])]"

definition nodes_backend_processed :: processed where
  "nodes_backend_processed =
     \<lparr>nodes = [\<lparr>pfile = Some ''nodes'', pimports = [], pid = Some ''1'', ptype = Some []\<rparr>],
      edges = [], connectionCounts = [], byType = [(''.other'', Count 1)]\<rparr>"

section \<open>Repository URL validation (App component)\<close>

text \<open>
  A JavaScript string is a list of UTF-16 code units; the model has the code units below
  256 as \<open>char\<close>. \<open>String.prototype.trim\<close> removes white space and line terminators from
  both ends; of the code units below 256 these are tab, line feed, vertical tab, form feed,
  carriage return, space and the no-break space.
\<close>

definition js_whitespace :: "char \<Rightarrow> bool" where
  "js_whitespace c \<longleftrightarrow>
     c \<in> {CHR 0x09, CHR 0x0A, CHR 0x0B, CHR 0x0C, CHR 0x0D, CHR 0x20, CHR 0xA0}"

definition trim :: "string \<Rightarrow> string" where
  "trim s = rev (dropWhile js_whitespace (rev (dropWhile js_whitespace s)))"

text \<open>The character classes \<open>[a-zA-Z0-9_-]\<close> and \<open>[a-zA-Z0-9_.-]\<close>.\<close>

definition owner_char :: "char \<Rightarrow> bool" where
  "owner_char c \<longleftrightarrow>
     in_range CHR ''a'' CHR ''z'' c \<or> in_range CHR ''A'' CHR ''Z'' c
     \<or> in_range CHR ''0'' CHR ''9'' c \<or> c = CHR ''_'' \<or> c = CHR ''-''"

definition repo_char :: "char \<Rightarrow> bool" where
  "repo_char c \<longleftrightarrow>
     in_range CHR ''a'' CHR ''z'' c \<or> in_range CHR ''A'' CHR ''Z'' c
     \<or> in_range CHR ''0'' CHR ''9'' c \<or> c = CHR ''_'' \<or> c = CHR ''.'' \<or> c = CHR ''-''"

text \<open>\<open>/^https?:\/\/github\.com\/[a-zA-Z0-9_-]+\/[a-zA-Z0-9_.-]+(\.git)?$/\<close>\<close>

definition fullUrlPattern :: rx where
  "fullUrlPattern =
     Times (Lit ''http'')
       (Times (Opt (Chr CHR ''s''))
          (Times (Lit ''://github.com/'')
             (Times (Plus (Atom owner_char))
                (Times (Chr CHR ''/'')
                   (Times (Plus (Atom repo_char)) (Opt (Lit ''.git'')))))))"

definition validateRepoFormat :: "string \<Rightarrow> bool" where
  "validateRepoFormat url = rx_matches fullUrlPattern (trim url)"

subsection \<open>\<open>analyzeRepo\<close>\<close>

text \<open>
  The state of the \<open>App\<close> component that \<open>analyzeRepo\<close> reads and sets; \<open>None\<close> is
  \<open>null\<close>. \<open>'d\<close> is the type of the analysis data.
\<close>

record 'd app_state =
  repoUrl :: string
  isAnalyzing :: bool
  completedSteps :: "string list"
  analysisData :: "'d option"
  error :: "string option"
  currentStep :: "string option"

text \<open>The request \<open>fetch\<close> is called with; the body is \<open>JSON.stringify({ repo })\<close>.\<close>

record request =
  req_url :: string
  req_method :: string
  req_repo :: string

text \<open>
  What the network does with a request: \<open>fetch\<close> rejects with an error message, or a
  response arrives. \<open>Reply_error detail statusText\<close> is a response whose \<open>ok\<close> is false,
  \<open>detail\<close> being \<open>errorData.detail\<close> (\<open>None\<close> when the body has no such field or is not
  JSON); \<open>Reply_ok r\<close> is a response whose \<open>ok\<close> is true, \<open>r\<close> being the data, or the
  message of the error that \<open>response.json()\<close> throws.
\<close>

datatype 'd outcome =
  Rejected string
  | Reply_error "string option" string
  | Reply_ok "string + 'd"

text \<open>The message that the \<open>try\<close> block throws, if it throws.\<close>

definition thrown :: "'d outcome \<Rightarrow> string option" where
  "thrown r =
     (case r of
        Rejected msg \<Rightarrow> Some msg
      | Reply_error detail statusText \<Rightarrow>
          Some (case detail of
                  None \<Rightarrow> ''Analysis failed: '' @ statusText
                | Some d \<Rightarrow> if d \<noteq> [] then d else ''Analysis failed: '' @ statusText)
      | Reply_ok (Inl msg) \<Rightarrow> Some msg
      | Reply_ok (Inr d) \<Rightarrow> None)"

text \<open>
  \<open>analyzeRepo\<close>, from the call to the settlement of its promise: the state at the end and
  the requests sent, in order. The two timers only delay the steps; the states rendered in
  between are not part of the result.
\<close>

definition analyzeRepo ::
  "(request \<Rightarrow> 'd outcome) \<Rightarrow> 'd app_state \<Rightarrow> 'd app_state \<times> request list" where
  "analyzeRepo fetch st =
     (let trimmedUrl = trim (repoUrl st) in
      if trimmedUrl = [] then (st\<lparr>error := Some ''Please enter a GitHub repository URL''\<rparr>, [])
      else if \<not> validateRepoFormat trimmedUrl
      then (st\<lparr>error :=
                 Some ''Invalid URL format. Example: https://github.com/username/repo.git''\<rparr>,
            [])
      else
        (let req = \<lparr>req_url = ''http://localhost:8000/analyze'', req_method = ''POST'',
                    req_repo = trimmedUrl\<rparr>;
             r = fetch req
         in (case thrown r of
               None \<Rightarrow>
                 st\<lparr>isAnalyzing := False,
                    completedSteps := [''clone'', ''analyze'', ''docs''],
                    error := None,
                    analysisData := (case r of Reply_ok (Inr d) \<Rightarrow> Some d | _ \<Rightarrow> None),
                    currentStep := None\<rparr>
             | Some msg \<Rightarrow>
                 st\<lparr>isAnalyzing := False,
                    completedSteps := [],
                    error :=
                      Some (if msg = [] then ''Failed to analyze repository. Please try again.''
                            else msg),
                    analysisData := None,
                    currentStep := None\<rparr>,
             [req])))"

subsection \<open>Notions used to state the properties of the validation\<close>

text \<open>A network that answers every request with a successful response.\<close>

definition answers_ok :: "request \<Rightarrow> unit outcome" where
  "answers_ok req = Reply_ok (Inr ())"

text \<open>
  The parts of a URL string: the scheme is the text before the first colon; after the
  three characters \<open>://\<close> comes the host, up to the first slash, and after that slash the
  path, whose components are separated by slashes.
\<close>

definition url_scheme :: "string \<Rightarrow> string" where
  "url_scheme s = takeWhile (\<lambda>c. c \<noteq> CHR '':'') s"

definition url_rest :: "string \<Rightarrow> string" where
  "url_rest s = drop 3 (dropWhile (\<lambda>c. c \<noteq> CHR '':'') s)"

definition url_host :: "string \<Rightarrow> string" where
  "url_host s = takeWhile (\<lambda>c. c \<noteq> CHR ''/'') (url_rest s)"

fun split_on :: "char \<Rightarrow> string \<Rightarrow> string list" where
  "split_on d [] = [[]]"
| "split_on d (c # cs) =
     (if c = d then [] # split_on d cs
      else (case split_on d cs of [] \<Rightarrow> [[c]] | w # ws \<Rightarrow> (c # w) # ws))"

definition url_path :: "string \<Rightarrow> string list" where
  "url_path s = split_on CHR ''/'' (drop 1 (dropWhile (\<lambda>c. c \<noteq> CHR ''/'') (url_rest s)))"

text \<open>
  The characters that a shell treats specially: the operators and quoting characters, the
  blanks, and the pattern, comment, expansion and history characters.
\<close>

definition shell_metachar :: "char \<Rightarrow> bool" where
  "shell_metachar c \<longleftrightarrow>
     c \<in> set ''|&;<>()$*?[]#~=%!{}^''
     \<or> c \<in> {CHR 0x22, CHR 0x27, CHR 0x5C, CHR 0x60, CHR 0x20, CHR 0x09, CHR 0x0A}"

text \<open>The language of a pattern.\<close>

inductive_set star :: "string set \<Rightarrow> string set" for A :: "string set" where
  star_nil: "[] \<in> star A"
| star_step: "u \<in> A \<Longrightarrow> v \<in> star A \<Longrightarrow> u @ v \<in> star A"

fun lang :: "rx \<Rightarrow> string set" where
  "lang Zero = {}"
| "lang One = {[]}"
| "lang (Atom P) = {[c] | c. P c}"
| "lang (Alt r s) = lang r \<union> lang s"
| "lang (Times r s) = {u @ v | u v. u \<in> lang r \<and> v \<in> lang s}"
| "lang (Star r) = star (lang r)"

section \<open>AI detection panel (AIDetection component)\<close>

subsection \<open>JSON values and the runtime\<close>

text \<open>
  The \<open>ai_detection\<close> payload is a JSON value produced by the external model; \<open>Undefined\<close> is
  also the value of a property that is absent. An object is the list of its own
  properties in the order of \<open>Object.entries\<close>; none of them is callable. The numbers are
  the values of a type \<open>'n\<close> of the runtime, \<open>NaN\<close> among them.
\<close>

datatype 'n jsval =
  Undefined | Null | Bool bool | Num 'n | Str string
  | Arr "'n jsval list" | Obj "(string \<times> 'n jsval) list"

text \<open>
  What the component uses of the numbers of the runtime: the number of a natural number
  (a length or a literal), \<open>NaN\<close>, the test for \<open>0\<close>, \<open>-0\<close> and \<open>NaN\<close> (the falsy numbers),
  the conversions between strings and numbers, subtraction, and \<open>a < b\<close> (false when
  either is \<open>NaN\<close>). None of them throws. The statements about the component hold for
  every such record.
\<close>

record 'n runtime =
  rt_of_nat :: "nat \<Rightarrow> 'n"
  rt_nan :: 'n
  rt_falsy :: "'n \<Rightarrow> bool"
  rt_parse :: "string \<Rightarrow> 'n"
  rt_print :: "'n \<Rightarrow> string"
  rt_minus :: "'n \<Rightarrow> 'n \<Rightarrow> 'n"
  rt_less :: "'n \<Rightarrow> 'n \<Rightarrow> bool"

fun truthy_val :: "'n runtime \<Rightarrow> 'n jsval \<Rightarrow> bool" where
  "truthy_val rt Undefined = False"
| "truthy_val rt Null = False"
| "truthy_val rt (Bool b) = b"
| "truthy_val rt (Num n) = (\<not> rt_falsy rt n)"
| "truthy_val rt (Str s) = (s \<noteq> [])"
| "truthy_val rt (Arr xs) = True"
| "truthy_val rt (Obj kvs) = True"

text \<open>\<open>a || b\<close>\<close>

definition or_val :: "'n runtime \<Rightarrow> 'n jsval \<Rightarrow> 'n jsval \<Rightarrow> 'n jsval" where
  "or_val rt a b = (if truthy_val rt a then a else b)"

text \<open>
  \<open>v.k\<close> for the property names the component reads (the fields of the payload and
  \<open>length\<close>): a TypeError on \<open>undefined\<close> and \<open>null\<close>, the own property of an object,
  the length of an array or a string, and \<open>undefined\<close> otherwise. None of the names is a
  property of a prototype, \<open>length\<close> apart.
\<close>

fun field :: "'n runtime \<Rightarrow> 'n jsval \<Rightarrow> string \<Rightarrow> error + 'n jsval" where
  "field rt Undefined k = Inl TypeError"
| "field rt Null k = Inl TypeError"
| "field rt (Obj kvs) k = Inr (case map_of kvs k of None \<Rightarrow> Undefined | Some v \<Rightarrow> v)"
| "field rt (Arr xs) k =
     Inr (if k = ''length'' then Num (rt_of_nat rt (length xs)) else Undefined)"
| "field rt (Str s) k =
     Inr (if k = ''length'' then Num (rt_of_nat rt (length s)) else Undefined)"
| "field rt v k = Inr Undefined"

text \<open>\<open>v[0]\<close> on a value that is not \<open>undefined\<close> or \<open>null\<close>.\<close>

fun first_elem :: "'n jsval \<Rightarrow> 'n jsval" where
  "first_elem (Arr (x # xs)) = x"
| "first_elem (Str (c # cs)) = Str [c]"
| "first_elem (Obj kvs) = (case map_of kvs ''0'' of None \<Rightarrow> Undefined | Some v \<Rightarrow> v)"
| "first_elem v = Undefined"

text \<open>Sequencing of steps that may throw.\<close>

definition bind :: "error + 'a \<Rightarrow> ('a \<Rightarrow> error + 'b) \<Rightarrow> error + 'b" where
  "bind m f = (case m of Inl e \<Rightarrow> Inl e | Inr x \<Rightarrow> f x)"

text \<open>\<open>Array.prototype.join\<close> with the separator \<open>,\<close> on the texts of the elements.\<close>

fun join_commas :: "string list \<Rightarrow> string" where
  "join_commas [] = []"
| "join_commas [s] = s"
| "join_commas (s # t # ss) = s @ '','' @ join_commas (t # ss)"

text \<open>
  The conversion of a value to a string. An object is converted by the first of its
  methods \<open>toString\<close> and \<open>valueOf\<close> that is callable and returns a primitive value (for
  a number, \<open>valueOf\<close> first): an own property of a JSON object is not callable, the
  inherited \<open>valueOf\<close> returns the object itself, and the inherited \<open>toString\<close> returns
  \<open>[object Object]\<close>; so the conversion throws a TypeError when the object has an own
  property \<open>toString\<close>, and gives \<open>[object Object]\<close> otherwise. An array is converted by
  \<open>join\<close>, which takes \<open>undefined\<close> and \<open>null\<close> elements for the empty string and
  converts the others.
\<close>

fun to_text :: "'n runtime \<Rightarrow> 'n jsval \<Rightarrow> error + string"
  and join_text :: "'n runtime \<Rightarrow> 'n jsval list \<Rightarrow> error + string list" where
  "to_text rt Undefined = Inr ''undefined''"
| "to_text rt Null = Inr ''null''"
| "to_text rt (Bool b) = Inr (if b then ''true'' else ''false'')"
| "to_text rt (Num n) = Inr (rt_print rt n)"
| "to_text rt (Str s) = Inr s"
| "to_text rt (Obj kvs) =
     (if ''toString'' \<in> fst ` set kvs then Inl TypeError else Inr ''[object Object]'')"
| "to_text rt (Arr xs) =
     (case join_text rt xs of Inl e \<Rightarrow> Inl e | Inr ss \<Rightarrow> Inr (join_commas ss))"
| "join_text rt [] = Inr []"
| "join_text rt (x # xs) =
     (case (if x = Undefined \<or> x = Null then Inr [] else to_text rt x) of
        Inl e \<Rightarrow> Inl e
      | Inr s \<Rightarrow> (case join_text rt xs of Inl e \<Rightarrow> Inl e | Inr ss \<Rightarrow> Inr (s # ss)))"

text \<open>The conversion of a value to a number: an array or an object through its text.\<close>

definition to_number :: "'n runtime \<Rightarrow> 'n jsval \<Rightarrow> error + 'n" where
  "to_number rt v =
     (case v of
        Undefined \<Rightarrow> Inr (rt_nan rt)
      | Null \<Rightarrow> Inr (rt_of_nat rt 0)
      | Bool b \<Rightarrow> Inr (rt_of_nat rt (if b then 1 else 0))
      | Num n \<Rightarrow> Inr n
      | Str s \<Rightarrow> Inr (rt_parse rt s)
      | _ \<Rightarrow> bind (to_text rt v) (\<lambda>s. Inr (rt_parse rt s)))"

text \<open>\<open>v < n\<close> and \<open>v > n\<close> for a number literal \<open>n\<close>: \<open>v\<close> is converted to a number.\<close>

definition js_lt :: "'n runtime \<Rightarrow> 'n jsval \<Rightarrow> nat \<Rightarrow> error + bool" where
  "js_lt rt v n = bind (to_number rt v) (\<lambda>x. Inr (rt_less rt x (rt_of_nat rt n)))"

definition js_gt :: "'n runtime \<Rightarrow> 'n jsval \<Rightarrow> nat \<Rightarrow> error + bool" where
  "js_gt rt v n = bind (to_number rt v) (\<lambda>x. Inr (rt_less rt (rt_of_nat rt n) x))"

subsection \<open>The component function\<close>

text \<open>
  What the component computes from the payload and places in the element tree. Class
  names and animation settings are presentation and are left out, but not the
  conversions that computing them makes.
\<close>

record 'n detail_view =
  dv_label :: string
  dv_value :: "'n jsval"
  dv_isHuman :: bool

record 'n indicator_view =
  iv_indicator :: "'n jsval"
  iv_severity :: "'n jsval"
  iv_file_pattern :: "'n jsval option"
  iv_example :: "'n jsval option"

record 'n report_view =
  aiPercentage :: "'n jsval"
  humanPercentage :: "'n jsval"
  confidence :: "'n jsval"
  colorLabel :: string
  summary :: "'n jsval option"
  details :: "'n detail_view list option"
  indicators :: "'n indicator_view list option"
  recommendation :: "'n jsval option"

datatype 'n view = NoData_view | Rendered "'n report_view"

text \<open>\<open>getColor(percentage).label\<close>\<close>

definition getColor :: "'n runtime \<Rightarrow> 'n jsval \<Rightarrow> error + string" where
  "getColor rt percentage =
     bind (js_lt rt percentage 20) (\<lambda>b20. if b20 then Inr ''Mostly Human'' else
     bind (js_lt rt percentage 40) (\<lambda>b40. if b40 then Inr ''Largely Human'' else
     bind (js_lt rt percentage 60) (\<lambda>b60. if b60 then Inr ''Mixed'' else
     bind (js_lt rt percentage 80) (\<lambda>b80. if b80 then Inr ''Largely AI'' else
     Inr ''Mostly AI''))))"

text \<open>
  \<open>x && <section>\<close>: the section is rendered with \<open>x\<close> when \<open>x\<close> is truthy. When \<open>x\<close> is
  falsy the expression is \<open>x\<close> itself, a primitive value, which React accepts as a child.
\<close>

definition shown :: "'n runtime \<Rightarrow> 'n jsval \<Rightarrow> 'n jsval option" where
  "shown rt v = (if truthy_val rt v then Some v else None)"

text \<open>
  \<open>Object.entries\<close> of a truthy value: the own properties of an object, the indexed
  elements of an array or a string, nothing for a number or a boolean.
\<close>

definition entries :: "'n jsval \<Rightarrow> (string \<times> 'n jsval) list" where
  "entries v =
     (case v of
        Obj kvs \<Rightarrow> kvs
      | Arr xs \<Rightarrow> zip (map decimal [0..<length xs]) xs
      | Str s \<Rightarrow> zip (map decimal [0..<length s]) (map (\<lambda>c. Str [c]) s)
      | _ \<Rightarrow> [])"

text \<open>\<open>key.replace(/_/g, ' ').replace(/score/gi, '').trim()\<close>\<close>

definition lower :: "char \<Rightarrow> char" where
  "lower c = (if in_range CHR ''A'' CHR ''Z'' c then char_of (of_char c + (32::nat)) else c)"

fun strip_score :: "string \<Rightarrow> string" where
  "strip_score [] = []"
| "strip_score (c # cs) =
     (if map lower (take 5 (c # cs)) = ''score'' then strip_score (drop 4 cs)
      else c # strip_score cs)"

definition detail_label :: "string \<Rightarrow> string" where
  "detail_label key =
     trim (strip_score (map (\<lambda>c. if c = CHR ''_'' then CHR '' '' else c) key))"

text \<open>The callback of \<open>Object.entries(data.details).map\<close>: \<open>value > 50\<close> converts the
  value to a number and the width \<open>`${value}%`\<close> converts it to a string.\<close>

definition detail_row :: "'n runtime \<Rightarrow> string \<times> 'n jsval \<Rightarrow> error + 'n detail_view" where
  "detail_row rt kv =
     bind (js_gt rt (snd kv) 50) (\<lambda>isHuman.
     bind (to_text rt (snd kv)) (\<lambda>width.
       Inr \<lparr>dv_label = detail_label (fst kv), dv_value = snd kv, dv_isHuman = isHuman\<rparr>))"

text \<open>\<open>data.details && Object.keys(data.details).length > 0 && ...\<close>\<close>

definition details_section :: "'n runtime \<Rightarrow> 'n jsval \<Rightarrow> error + 'n detail_view list option" where
  "details_section rt d =
     (if truthy_val rt d \<and> length (entries d) > 0
      then bind (map_err (detail_row rt) (entries d)) (\<lambda>rows. Inr (Some rows))
      else Inr None)"

text \<open>The callback of \<open>data.indicators_found.slice(0, 5).map\<close>; its first property read is
  \<open>indicator.severity\<close>.\<close>

definition indicator_row :: "'n runtime \<Rightarrow> 'n jsval \<Rightarrow> error + 'n indicator_view" where
  "indicator_row rt indicator =
     bind (field rt indicator ''severity'') (\<lambda>severity.
     bind (field rt indicator ''indicator'') (\<lambda>name.
     bind (field rt indicator ''file_pattern'') (\<lambda>file_pattern.
     bind (field rt indicator ''examples'') (\<lambda>examples.
     bind (if truthy_val rt examples
           then bind (field rt examples ''length'') (\<lambda>len. js_gt rt len 0)
           else Inr False) (\<lambda>has_example.
       Inr \<lparr>iv_indicator = name, iv_severity = severity,
            iv_file_pattern = shown rt file_pattern,
            iv_example = (if has_example then Some (first_elem examples) else None)\<rparr>)))))"

text \<open>
  \<open>data.indicators_found && data.indicators_found.length > 0 && ...slice(0, 5).map(...)\<close>:
  on an array the first five entries are rendered; on a string \<open>slice\<close> gives a string,
  which has no \<open>map\<close>, and on an object \<open>slice\<close> is not a function.
\<close>

definition indicators_section ::
  "'n runtime \<Rightarrow> 'n jsval \<Rightarrow> error + 'n indicator_view list option" where
  "indicators_section rt found =
     (if \<not> truthy_val rt found then Inr None
      else bind (field rt found ''length'') (\<lambda>len.
           bind (js_gt rt len 0) (\<lambda>positive.
        if \<not> positive then Inr None
        else (case found of
                Arr xs \<Rightarrow>
                  bind (map_err (indicator_row rt) (take 5 xs)) (\<lambda>rows. Inr (Some rows))
              | _ \<Rightarrow> Inl TypeError))))"

text \<open>
  The component function: \<open>if (!data)\<close> the element without data, else the report, in
  the order of evaluation: the three constants, \<open>getColor\<close>, the product
  \<open>aiPercentage * 5.53\<close> of the stroke (only its conversion is kept), the property key
  \<open>confidenceColors[confidence]\<close>, and the sections.
\<close>

definition AIDetection :: "'n runtime \<Rightarrow> 'n jsval \<Rightarrow> error + 'n view" where
  "AIDetection rt data =
     (if \<not> truthy_val rt data then Inr NoData_view
      else
        bind (field rt data ''ai_percentage'') (\<lambda>ai.
        bind (field rt data ''human_percentage'') (\<lambda>human.
        bind (if truthy_val rt human then Inr human
              else bind (to_number rt (or_val rt ai (Num (rt_of_nat rt 0)))) (\<lambda>n.
                     Inr (Num (rt_minus rt (rt_of_nat rt 100) n)))) (\<lambda>humanPercentage.
        bind (field rt data ''confidence'') (\<lambda>conf.
        bind (getColor rt (or_val rt ai (Num (rt_of_nat rt 0)))) (\<lambda>label.
        bind (to_number rt (or_val rt ai (Num (rt_of_nat rt 0)))) (\<lambda>stroke.
        bind (to_text rt (or_val rt conf (Str ''low''))) (\<lambda>colorKey.
        bind (field rt data ''summary'') (\<lambda>summ.
        bind (field rt data ''details'') (\<lambda>det.
        bind (details_section rt det) (\<lambda>rows.
        bind (field rt data ''indicators_found'') (\<lambda>found.
        bind (indicators_section rt found) (\<lambda>inds.
        bind (field rt data ''recommendation'') (\<lambda>rec.
          Inr (Rendered
            \<lparr>aiPercentage = or_val rt ai (Num (rt_of_nat rt 0)),
             humanPercentage = humanPercentage,
             confidence = or_val rt conf (Str ''low''),
             colorLabel = label,
             summary = shown rt summ,
             details = rows,
             indicators = inds,
             recommendation = shown rt rec\<rparr>)))))))))))))))"

subsection \<open>Rendering by React\<close>

text \<open>
  React renders the element that the function returns, and throws on a child that is an
  object (\<open>Objects are not valid as a React child\<close>). A string or a number is shown, a
  boolean, \<open>null\<close> and \<open>undefined\<close> show nothing, and the elements of an array are
  children in turn.
\<close>

fun valid_child :: "'n jsval \<Rightarrow> bool" where
  "valid_child (Obj kvs) = False"
| "valid_child (Arr xs) = (\<forall>x\<in>set xs. valid_child x)"
| "valid_child v = True"

definition valid_option :: "'n jsval option \<Rightarrow> bool" where
  "valid_option c = (case c of None \<Rightarrow> True | Some v \<Rightarrow> valid_child v)"

text \<open>The payload values placed as children: per indicator, per detail, and in the
  report.\<close>

definition indicator_children_valid :: "'n indicator_view \<Rightarrow> bool" where
  "indicator_children_valid i \<longleftrightarrow>
     valid_child (iv_indicator i) \<and> valid_child (iv_severity i)
   \<and> valid_option (iv_file_pattern i) \<and> valid_option (iv_example i)"

definition children_valid :: "'n view \<Rightarrow> bool" where
  "children_valid v =
     (case v of
        NoData_view \<Rightarrow> True
      | Rendered r \<Rightarrow>
          valid_child (aiPercentage r) \<and> valid_child (humanPercentage r)
        \<and> valid_child (confidence r) \<and> valid_option (summary r)
        \<and> (case details r of None \<Rightarrow> True
            | Some rows \<Rightarrow> list_all (\<lambda>row. valid_child (dv_value row)) rows)
        \<and> (case indicators r of None \<Rightarrow> True
            | Some rows \<Rightarrow> list_all indicator_children_valid rows)
        \<and> valid_option (recommendation r))"

text \<open>The rendering of the component: the call of the function, then React's pass over
  the element.\<close>

definition render_AIDetection :: "'n runtime \<Rightarrow> 'n jsval \<Rightarrow> error + 'n view" where
  "render_AIDetection rt data =
     bind (AIDetection rt data) (\<lambda>v. if children_valid v then Inr v else Inl ReactError)"

subsection \<open>Notions used to state the properties of the panel\<close>

text \<open>The value read for a property of a payload that is not \<open>undefined\<close> or \<open>null\<close>.\<close>

definition read_prop :: "'n runtime \<Rightarrow> 'n jsval \<Rightarrow> string \<Rightarrow> 'n jsval" where
  "read_prop rt d k = (case field rt d k of Inl e \<Rightarrow> Undefined | Inr v \<Rightarrow> v)"

text \<open>A value that can be converted to a string or a number: no object with an own
  property \<open>toString\<close>, and no array with such an object in it.\<close>

fun convertible :: "'n jsval \<Rightarrow> bool" where
  "convertible (Obj kvs) = (''toString'' \<notin> fst ` set kvs)"
| "convertible (Arr xs) = (\<forall>x\<in>set xs. convertible x)"
| "convertible v = True"

text \<open>The number of a convertible value, and whether it is greater than \<open>0\<close>.\<close>

definition number_of :: "'n runtime \<Rightarrow> 'n jsval \<Rightarrow> 'n" where
  "number_of rt v = (case to_number rt v of Inl e \<Rightarrow> rt_nan rt | Inr n \<Rightarrow> n)"

definition positive :: "'n runtime \<Rightarrow> 'n jsval \<Rightarrow> bool" where
  "positive rt v = rt_less rt (rt_of_nat rt 0) (number_of rt v)"

text \<open>
  An entry of \<open>indicators_found\<close> is usable: it is not \<open>null\<close> or \<open>undefined\<close>; its
  \<open>indicator\<close>, \<open>severity\<close> and \<open>file_pattern\<close> are valid children; and its \<open>examples\<close>,
  when truthy, has a convertible \<open>length\<close> and, when that is positive, a valid child as
  \<open>examples[0]\<close>.
\<close>

definition usable_indicator :: "'n runtime \<Rightarrow> 'n jsval \<Rightarrow> bool" where
  "usable_indicator rt i \<longleftrightarrow>
     i \<noteq> Null \<and> i \<noteq> Undefined
   \<and> valid_child (read_prop rt i ''indicator'')
   \<and> valid_child (read_prop rt i ''severity'')
   \<and> valid_child (read_prop rt i ''file_pattern'')
   \<and> (truthy_val rt (read_prop rt i ''examples'') \<longrightarrow>
        convertible (read_prop rt (read_prop rt i ''examples'') ''length'')
      \<and> (positive rt (read_prop rt (read_prop rt i ''examples'') ''length'') \<longrightarrow>
           valid_child (first_elem (read_prop rt i ''examples''))))"

text \<open>
  The \<open>indicators_found\<close> field is usable: it is falsy, or its \<open>length\<close> is convertible
  and, when that is positive, it is an array whose first five entries are usable.
\<close>

definition usable_indicators :: "'n runtime \<Rightarrow> 'n jsval \<Rightarrow> bool" where
  "usable_indicators rt found \<longleftrightarrow>
     \<not> truthy_val rt found
     \<or> convertible (read_prop rt found ''length'')
       \<and> (positive rt (read_prop rt found ''length'') \<longrightarrow>
            (case found of
               Arr xs \<Rightarrow> list_all (usable_indicator rt) (take 5 xs)
             | _ \<Rightarrow> False))"

text \<open>
  A payload is renderable: its \<open>ai_percentage\<close>, \<open>human_percentage\<close>, \<open>confidence\<close>,
  \<open>summary\<close> and \<open>recommendation\<close> and the values of its \<open>details\<close> are valid children,
  and its \<open>indicators_found\<close> is usable.
\<close>

definition renderable :: "'n runtime \<Rightarrow> 'n jsval \<Rightarrow> bool" where
  "renderable rt data \<longleftrightarrow>
     valid_child (read_prop rt data ''ai_percentage'')
   \<and> valid_child (read_prop rt data ''human_percentage'')
   \<and> valid_child (read_prop rt data ''confidence'')
   \<and> valid_child (read_prop rt data ''summary'')
   \<and> list_all (\<lambda>kv. valid_child (snd kv)) (entries (read_prop rt data ''details''))
   \<and> usable_indicators rt (read_prop rt data ''indicators_found'')
   \<and> valid_child (read_prop rt data ''recommendation'')"

text \<open>The rows that the two callbacks return when they return.\<close>

definition detail_view_of :: "'n runtime \<Rightarrow> string \<times> 'n jsval \<Rightarrow> 'n detail_view" where
  "detail_view_of rt kv =
     \<lparr>dv_label = detail_label (fst kv), dv_value = snd kv,
      dv_isHuman = rt_less rt (rt_of_nat rt 50) (number_of rt (snd kv))\<rparr>"

definition indicator_view_of :: "'n runtime \<Rightarrow> 'n jsval \<Rightarrow> 'n indicator_view" where
  "indicator_view_of rt i =
     \<lparr>iv_indicator = read_prop rt i ''indicator'',
      iv_severity = read_prop rt i ''severity'',
      iv_file_pattern = shown rt (read_prop rt i ''file_pattern''),
      iv_example =
        (if truthy_val rt (read_prop rt i ''examples'')
            \<and> positive rt (read_prop rt (read_prop rt i ''examples'') ''length'')
         then Some (first_elem (read_prop rt i ''examples'')) else None)\<rparr>"

text \<open>A step returns.\<close>

definition succeeds :: "error + 'a \<Rightarrow> bool" where
  "succeeds m = (case m of Inl e \<Rightarrow> False | Inr x \<Rightarrow> True)"

subsection \<open>Example runtime and payloads\<close>

text \<open>
  A runtime to evaluate the examples with: its numbers are the integers and \<open>NaN\<close>
  (\<open>None\<close>), on which the arithmetic of the component is exact. Of the strings it
  converts the decimal numerals only; the examples convert no other string.
\<close>

definition digit_value :: "char \<Rightarrow> nat" where
  "digit_value c = of_char c - 48"

definition parse_numeral :: "string \<Rightarrow> int option" where
  "parse_numeral s =
     (if s \<noteq> [] \<and> list_all (in_range CHR ''0'' CHR ''9'') s
      then Some (int (foldl (\<lambda>a c. 10 * a + digit_value c) 0 s))
      else None)"

definition print_int :: "int option \<Rightarrow> string" where
  "print_int n =
     (case n of
        None \<Rightarrow> ''NaN''
      | Some i \<Rightarrow> if i < 0 then ''-'' @ decimal (nat (- i)) else decimal (nat i))"

definition minus_int :: "int option \<Rightarrow> int option \<Rightarrow> int option" where
  "minus_int a b =
     (case a of None \<Rightarrow> None | Some x \<Rightarrow> (case b of None \<Rightarrow> None | Some y \<Rightarrow> Some (x - y)))"

definition less_int :: "int option \<Rightarrow> int option \<Rightarrow> bool" where
  "less_int a b =
     (case a of None \<Rightarrow> False | Some x \<Rightarrow> (case b of None \<Rightarrow> False | Some y \<Rightarrow> x < y))"

definition falsy_int :: "int option \<Rightarrow> bool" where
  "falsy_int n = (n = None \<or> n = Some 0)"

definition some_int :: "nat \<Rightarrow> int option" where
  "some_int k = Some (int k)"

definition example_runtime :: "int option runtime" where
  "example_runtime =
     \<lparr>rt_of_nat = some_int, rt_nan = None, rt_falsy = falsy_int, rt_parse = parse_numeral,
      rt_print = print_int, rt_minus = minus_int, rt_less = less_int\<rparr>"

text \<open>A payload with one indicator and nothing else, and what is rendered for it.\<close>

definition sparse_payload :: "int option jsval" where
  "sparse_payload =
     Obj [(''indicators_found'', Arr [Obj [(''indicator'', Str ''boilerplate'')]])]"

definition sparse_report :: "int option report_view" where
  "sparse_report =
     \<lparr>aiPercentage = Num (Some 0), humanPercentage = Num (Some 100),
      confidence = Str ''low'', colorLabel = ''Mostly Human'',
      summary = None, details = None,
      indicators = Some [\<lparr>iv_indicator = Str ''boilerplate'', iv_severity = Undefined,
                          iv_file_pattern = None, iv_example = None\<rparr>],
      recommendation = None\<rparr>"

text \<open>Payloads on which rendering fails: a summary that is an object, an indicator that
  is \<open>null\<close>, and a percentage that is an object with an own \<open>toString\<close>.\<close>

definition object_summary_payload :: "int option jsval" where
  "object_summary_payload = Obj [(''summary'', Obj [(''a'', Num (Some 1))])]"

definition null_indicator_payload :: "int option jsval" where
  "null_indicator_payload = Obj [(''indicators_found'', Arr [Null])]"

definition unconvertible_percentage_payload :: "int option jsval" where
  "unconvertible_percentage_payload =
     Obj [(''ai_percentage'', Obj [(''valueOf'', Num (Some 1)), (''toString'', Num (Some 1))])]"

section \<open>Properties of the file tree statistics\<close>

lemma fold_add_stats_files:
  "files (fold (\<lambda>child st. add_stats (f child) st) cs st0)
     = files st0 + sum_list (map (\<lambda>c. files (f c)) cs)"
  by (induction cs arbitrary: st0) (simp_all add: add_stats_def)

lemma fold_add_stats_folders:
  "folders (fold (\<lambda>child st. add_stats (f child) st) cs st0)
     = folders st0 + sum_list (map (\<lambda>c. folders (f c)) cs)"
  by (induction cs arbitrary: st0) (simp_all add: add_stats_def)

lemma length_filter_concat:
  "length (filter P (concat xss)) = sum_list (map (\<lambda>xs. length (filter P xs)) xss)"
  by (induction xss) simp_all

lemma files_are_leaves_child:
  "files_are_leaves (FTNode n t cs) \<Longrightarrow> c \<in> set cs \<Longrightarrow> files_are_leaves c"
  by (auto simp: files_are_leaves_def list_all_iff)

lemma countFiles_files:
  "files_are_leaves t \<Longrightarrow>
   files (countFiles t) = length (filter (\<lambda>n. ntype n = ''file'') (subtree t))"
proof (induction t rule: countFiles.induct)
  case (1 n t cs)
  show ?case
  proof (cases "t = ''file''")
    case True
    with "1.prems" have "cs = []" by (simp add: files_are_leaves_def)
    with True show ?thesis by simp
  next
    case False
    have "sum_list (map (\<lambda>c. files (countFiles c)) cs)
        = sum_list (map (\<lambda>c. length (filter (\<lambda>n. ntype n = ''file'') (subtree c))) cs)"
      by (rule arg_cong [where f = sum_list], rule map_cong [OF refl])
         (use False "1.IH" "1.prems" files_are_leaves_child in blast)
    with False show ?thesis
      by (simp add: fold_add_stats_files length_filter_concat comp_def)
  qed
qed

lemma countFiles_folders:
  "files_are_leaves t \<Longrightarrow>
   folders (countFiles t) = length (filter (\<lambda>n. ntype n \<noteq> ''file'') (subtree t))"
proof (induction t rule: countFiles.induct)
  case (1 n t cs)
  show ?case
  proof (cases "t = ''file''")
    case True
    with "1.prems" have "cs = []" by (simp add: files_are_leaves_def)
    with True show ?thesis by simp
  next
    case False
    have "sum_list (map (\<lambda>c. folders (countFiles c)) cs)
        = sum_list (map (\<lambda>c. length (filter (\<lambda>n. ntype n \<noteq> ''file'') (subtree c))) cs)"
      by (rule arg_cong [where f = sum_list], rule map_cong [OF refl])
         (use False "1.IH" "1.prems" files_are_leaves_child in blast)
    with False show ?thesis
      by (simp add: fold_add_stats_folders length_filter_concat comp_def)
  qed
qed

text \<open>
  Claim C5. On a file tree in which the nodes of type \<open>'file'\<close> are leaves, \<open>countFiles\<close> of
  the FileTree component returns as \<open>files\<close> the number of nodes of type \<open>'file'\<close> in the
  subtree and as \<open>folders\<close> the number of nodes of any other type. The result depends on
  the tree alone: every evaluation on the same tree gives the same pair.
\<close>

theorem countFiles_counts:
  assumes "files_are_leaves t"
  shows "files (countFiles t) = length (filter (\<lambda>n. ntype n = ''file'') (subtree t))
       \<and> folders (countFiles t) = length (filter (\<lambda>n. ntype n \<noteq> ''file'') (subtree t))
       \<and> (\<forall>t'. t' = t \<longrightarrow> countFiles t' = countFiles t)"
  using assms by (simp add: countFiles_files countFiles_folders)

theorem countFiles_counts_witness:
  "files_are_leaves
     (FTNode ''repo'' ''folder''
        [FTNode ''a.py'' ''file'' [],
         FTNode ''src'' ''folder'' [FTNode ''b.py'' ''file'' [], FTNode ''lib'' ''dir'' []]])
   \<and> countFiles
     (FTNode ''repo'' ''folder''
        [FTNode ''a.py'' ''file'' [],
         FTNode ''src'' ''folder'' [FTNode ''b.py'' ''file'' [], FTNode ''lib'' ''dir'' []]])
     = \<lparr>files = 2, folders = 3\<rparr>"
proof -
  let ?t = "FTNode ''repo'' ''folder''
        [FTNode ''a.py'' ''file'' [],
         FTNode ''src'' ''folder'' [FTNode ''b.py'' ''file'' [], FTNode ''lib'' ''dir'' []]]"
  have h: "files_are_leaves ?t" by (simp add: files_are_leaves_def)
  from countFiles_counts [OF h] h show ?thesis by (simp add: add_stats_def)
qed

subsection \<open>The two \<open>countFiles\<close> functions\<close>

lemma agree_aux:
  "(only_nodes_met t \<longrightarrow> countFiles_FileTree t = Inr (countFiles_Report (Child t)))"
  "(only_nodes_among cs \<longrightarrow> countFiles_children cs st = Inr (Report_children cs st))"
  by (induction t and cs st rule: countFiles_FileTree_countFiles_children.induct) auto

lemma compare_aux:
  "\<forall>s. countFiles_FileTree t = Inr s \<longrightarrow>
        files s = files (countFiles_Report (Child t))
      \<and> folders (countFiles_Report (Child t)) \<le> folders s
      \<and> (\<not> only_nodes_met t \<longrightarrow> folders (countFiles_Report (Child t)) < folders s)"
  "\<forall>s st'. countFiles_children cs st = Inr s \<and> files st = files st' \<and> folders st' \<le> folders st \<longrightarrow>
        files s = files (Report_children cs st')
      \<and> folders (Report_children cs st') \<le> folders s
      \<and> (folders st' < folders st \<or> \<not> only_nodes_among cs \<longrightarrow>
           folders (Report_children cs st') < folders s)"
proof (induction t and cs st rule: countFiles_FileTree_countFiles_children.induct)
  case (1 n t cs)
  show ?case
  proof (cases "t = ''file''")
    case True
    then show ?thesis by simp
  next
    case False
    show ?thesis
    proof (intro allI impI)
      fix s
      assume "countFiles_FileTree (JNode n t cs) = Inr s"
      with False have c: "countFiles_children cs \<lparr>files = 0, folders = 1\<rparr> = Inr s" by simp
      from 1 [OF False] c have
        "files s = files (Report_children cs \<lparr>files = 0, folders = 1\<rparr>)
         \<and> folders (Report_children cs \<lparr>files = 0, folders = 1\<rparr>) \<le> folders s
         \<and> (\<not> only_nodes_among cs \<longrightarrow>
              folders (Report_children cs \<lparr>files = 0, folders = 1\<rparr>) < folders s)"
        by blast
      with False show "files s = files (countFiles_Report (Child (JNode n t cs)))
        \<and> folders (countFiles_Report (Child (JNode n t cs))) \<le> folders s
        \<and> (\<not> only_nodes_met (JNode n t cs) \<longrightarrow>
             folders (countFiles_Report (Child (JNode n t cs))) < folders s)"
        by simp
    qed
  qed
next
  case (2 st)
  then show ?case by simp
next
  case (3 cs st)
  then show ?case by simp
next
  case (4 cs st)
  show ?case
  proof (intro allI impI)
    fix s st' :: stats
    assume a: "countFiles_children (Falsy_child # cs) st = Inr s \<and> files st = files st'
      \<and> folders st' \<le> folders st"
    let ?st = "add_stats \<lparr>files = 0, folders = 1\<rparr> st"
    let ?st' = "add_stats (countFiles_Report Falsy_child) st'"
    from a have "countFiles_children cs ?st = Inr s" by simp
    moreover from a have "files ?st = files ?st'" "folders ?st' < folders ?st"
      by (simp_all add: add_stats_def)
    ultimately have "files s = files (Report_children cs ?st')"
      "folders (Report_children cs ?st') < folders s"
      using 4 less_imp_le by blast+
    then show "files s = files (Report_children (Falsy_child # cs) st')
      \<and> folders (Report_children (Falsy_child # cs) st') \<le> folders s
      \<and> (folders st' < folders st \<or> \<not> only_nodes_among (Falsy_child # cs) \<longrightarrow>
           folders (Report_children (Falsy_child # cs) st') < folders s)"
      by simp
  qed
next
  case (5 c cs st)
  show ?case
  proof (intro allI impI)
    fix s st' :: stats
    assume a: "countFiles_children (Child c # cs) st = Inr s \<and> files st = files st'
      \<and> folders st' \<le> folders st"
    then obtain childStats where c: "countFiles_FileTree c = Inr childStats"
      and rest: "countFiles_children cs (add_stats childStats st) = Inr s"
      by (cases "countFiles_FileTree c") simp_all
    let ?st = "add_stats childStats st"
    let ?st' = "add_stats (countFiles_Report (Child c)) st'"
    from 5(1) c have cf: "files childStats = files (countFiles_Report (Child c))"
      and cle: "folders (countFiles_Report (Child c)) \<le> folders childStats"
      and clt: "\<not> only_nodes_met c \<Longrightarrow> folders (countFiles_Report (Child c)) < folders childStats"
      by simp_all
    from a cf cle have f: "files ?st = files ?st'" and le: "folders ?st' \<le> folders ?st"
      by (simp_all add: add_stats_def)
    from 5(2) [OF c] rest f le have
      r1: "files s = files (Report_children cs ?st')"
      and r2: "folders (Report_children cs ?st') \<le> folders s"
      and r3: "folders ?st' < folders ?st \<or> \<not> only_nodes_among cs \<Longrightarrow>
           folders (Report_children cs ?st') < folders s"
      by blast+
    have "folders (Report_children cs ?st') < folders s"
      if "folders st' < folders st \<or> \<not> only_nodes_among (Child c # cs)"
    proof -
      from that have "folders st' < folders st \<or> \<not> only_nodes_met c \<or> \<not> only_nodes_among cs"
        by auto
      then have "folders ?st' < folders ?st \<or> \<not> only_nodes_among cs"
        using cle clt a by (auto simp: add_stats_def)
      then show ?thesis by (rule r3)
    qed
    with r1 r2 show "files s = files (Report_children (Child c # cs) st')
      \<and> folders (Report_children (Child c # cs) st') \<le> folders s
      \<and> (folders st' < folders st \<or> \<not> only_nodes_among (Child c # cs) \<longrightarrow>
           folders (Report_children (Child c # cs) st') < folders s)"
      by simp
  qed
qed

lemma FileTree_Report_iff:
  "countFiles_FileTree t = Inr (countFiles_Report (Child t)) \<longleftrightarrow> only_nodes_met t"
proof
  assume "only_nodes_met t"
  with agree_aux(1) [of t] show "countFiles_FileTree t = Inr (countFiles_Report (Child t))"
    by simp
next
  assume e: "countFiles_FileTree t = Inr (countFiles_Report (Child t))"
  show "only_nodes_met t"
  proof (rule ccontr)
    assume "\<not> only_nodes_met t"
    with compare_aux(1) [of t] e
    have "folders (countFiles_Report (Child t)) < folders (countFiles_Report (Child t))"
      by blast
    then show False by simp
  qed
qed

lemma to_jnode_children:
  "\<forall>c\<in>set cs. countFiles_FileTree (to_jnode c) = Inr (countFiles c) \<Longrightarrow>
   countFiles_children (map (\<lambda>c. Child (to_jnode c)) cs) st
     = Inr (fold (\<lambda>child st. add_stats (countFiles child) st) cs st)"
  by (induction cs arbitrary: st) simp_all

lemma countFiles_to_jnode: "countFiles_FileTree (to_jnode t) = Inr (countFiles t)"
proof (induction t rule: countFiles.induct)
  case (1 n t cs)
  then show ?case by (simp add: to_jnode_children)
qed

lemma only_nodes_to_jnode: "only_nodes_met (to_jnode t)"
proof (induction t rule: countFiles.induct)
  case (1 n t cs)
  have "only_nodes_among (map (\<lambda>c. Child (to_jnode c)) cs)"
    if "\<forall>c\<in>set cs. only_nodes_met (to_jnode c)" for cs :: "ftnode list"
    using that by (induction cs) simp_all
  with 1 show ?case by (cases "t = ''file''") simp_all
qed

lemma clean_tree_ok: "only_nodes_met clean_tree"
  by (simp add: clean_tree_def)

text \<open>
  Claim C10, as amended. On a file-tree node, \<open>countFiles\<close> of the FileTree component
  returns the pair that \<open>countFiles\<close> of the Report component returns exactly when only
  nodes are met in the tree: no \<open>null\<close> and no other falsy value among the children
  visited. That holds of every tree whose children are all nodes, where the pair is the
  one of \<open>countFiles\<close>. On \<open>null\<close> the function of the Report component returns
  \<open>{ files: 0, folders: 0 }\<close>.
\<close>

theorem countFiles_Report_agrees:
  "(countFiles_FileTree t = Inr (countFiles_Report (Child t)) \<longleftrightarrow> only_nodes_met t)
   \<and> only_nodes_met (to_jnode u)
   \<and> countFiles_Report (Child (to_jnode u)) = countFiles u
   \<and> countFiles_Report Null_child = \<lparr>files = 0, folders = 0\<rparr>"
proof -
  from FileTree_Report_iff [of "to_jnode u"] only_nodes_to_jnode [of u] countFiles_to_jnode [of u]
  have "countFiles_Report (Child (to_jnode u)) = countFiles u" by simp
  with FileTree_Report_iff [of t] only_nodes_to_jnode [of u] show ?thesis by simp
qed

theorem countFiles_Report_agrees_witness:
  "only_nodes_met clean_tree
   \<and> countFiles_FileTree clean_tree = Inr \<lparr>files = 1, folders = 1\<rparr>
   \<and> countFiles_Report (Child clean_tree) = \<lparr>files = 1, folders = 1\<rparr>"
  using countFiles_Report_agrees [of clean_tree] clean_tree_ok
  by (simp add: clean_tree_def add_stats_def)

text \<open>
  The claim as stated fails on nodes that are not \<open>null\<close>: with a \<open>null\<close> among the
  children the function of the FileTree component throws where the one of the Report
  component returns, and with a \<open>0\<close> among the children it counts a folder that the
  other does not count.
\<close>

theorem null_child_counterexample:
  "countFiles_FileTree null_child_tree = Inl TypeError
   \<and> countFiles_Report (Child null_child_tree) = \<lparr>files = 1, folders = 1\<rparr>
   \<and> countFiles_FileTree zero_child_tree = Inr \<lparr>files = 1, folders = 2\<rparr>
   \<and> countFiles_Report (Child zero_child_tree) = \<lparr>files = 1, folders = 1\<rparr>"
  by (simp add: null_child_tree_def zero_child_tree_def add_stats_def)

section \<open>Properties of the pattern matcher\<close>

subsection \<open>The matcher decides the language\<close>

lemma nullable_lang: "nullable r \<longleftrightarrow> [] \<in> lang r"
  by (induction r) (auto intro: star_nil)

lemma star_cons_split:
  assumes "x \<in> star A" and "x = c # w"
  shows "\<exists>u v. w = u @ v \<and> c # u \<in> A \<and> v \<in> star A"
  using assms
proof (induction arbitrary: w rule: star.induct)
  case star_nil
  then show ?case by simp
next
  case (star_step u v)
  show ?case
  proof (cases u)
    case Nil
    with star_step show ?thesis by simp
  next
    case (Cons d u')
    with star_step.prems have "d = c" "w = u' @ v" by simp_all
    with Cons star_step.hyps show ?thesis by blast
  qed
qed

lemma star_cons: "c # w \<in> star A \<longleftrightarrow> (\<exists>u v. w = u @ v \<and> c # u \<in> A \<and> v \<in> star A)"
proof
  assume "c # w \<in> star A"
  then show "\<exists>u v. w = u @ v \<and> c # u \<in> A \<and> v \<in> star A" by (rule star_cons_split) simp
next
  assume "\<exists>u v. w = u @ v \<and> c # u \<in> A \<and> v \<in> star A"
  then obtain u v where "w = u @ v" "c # u \<in> A" "v \<in> star A" by blast
  then show "c # w \<in> star A" using star_step [of "c # u" A v] by simp
qed

lemma deriv_lang: "w \<in> lang (deriv c r) \<longleftrightarrow> c # w \<in> lang r"
proof (induction r arbitrary: w)
  case (Times r s)
  have "c # w \<in> lang (Times r s)
      \<longleftrightarrow> (\<exists>u v. w = u @ v \<and> c # u \<in> lang r \<and> v \<in> lang s) \<or> ([] \<in> lang r \<and> c # w \<in> lang s)"
    by (auto simp: Cons_eq_append_conv)
  with Times show ?case by (auto simp: nullable_lang)
next
  case (Star r)
  then show ?case by (auto simp: star_cons)
qed auto

lemma rx_matches_lang: "rx_matches r s \<longleftrightarrow> s \<in> lang r"
  unfolding rx_matches_def
  by (induction s arbitrary: r) (simp_all add: nullable_lang deriv_lang)

subsection \<open>The languages of the building blocks\<close>

lemma lang_Chr: "lang (Chr c) = {[c]}"
  by (auto simp: Chr_def)

lemma lang_Lit: "lang (Lit w) = {w}"
  by (induction w) (auto simp: lang_Chr)

lemma lang_Opt: "lang (Opt r) = insert [] (lang r)"
  by (auto simp: Opt_def)

lemma star_Atom: "star {[c] | c. P c} = {w. \<forall>c\<in>set w. P c}"
proof (rule set_eqI, rule iffI)
  fix w
  assume "w \<in> star {[c] | c. P c}"
  then show "w \<in> {w. \<forall>c\<in>set w. P c}" by (induction rule: star.induct) auto
next
  fix w
  assume "w \<in> {w. \<forall>c\<in>set w. P c}"
  then show "w \<in> star {[c] | c. P c}"
  proof (induction w)
    case Nil
    then show ?case by (simp add: star_nil)
  next
    case (Cons c w)
    then have "[c] \<in> {[c] | c. P c}" "w \<in> star {[c] | c. P c}" by auto
    from star_step [OF this] show ?case by simp
  qed
qed

lemma lang_Plus_Atom: "lang (Plus (Atom P)) = {w. w \<noteq> [] \<and> (\<forall>c\<in>set w. P c)}"
proof (rule set_eqI, rule iffI)
  fix w
  assume "w \<in> lang (Plus (Atom P))"
  then obtain c v where "w = [c] @ v" "P c" "\<forall>d\<in>set v. P d"
    by (auto simp: Plus_def star_Atom)
  then show "w \<in> {w. w \<noteq> [] \<and> (\<forall>c\<in>set w. P c)}" by simp
next
  fix w
  assume "w \<in> {w. w \<noteq> [] \<and> (\<forall>c\<in>set w. P c)}"
  then obtain c v where w: "w = c # v" and "P c" "\<forall>d\<in>set v. P d" by (cases w) auto
  then have "[c] \<in> lang (Atom P)" "v \<in> star (lang (Atom P))" by (simp_all add: star_Atom)
  then have "[c] @ v \<in> {u @ v | u v. u \<in> lang (Atom P) \<and> v \<in> star (lang (Atom P))}" by blast
  with w show "w \<in> lang (Plus (Atom P))" by (simp add: Plus_def)
qed

lemma lang_Times_Lit: "lang (Times (Lit w) r) = {w @ v | v. v \<in> lang r}"
  by (auto simp: lang_Lit)

subsection \<open>The language of \<open>fullUrlPattern\<close>\<close>

lemma repo_git: "\<forall>c\<in>set ''.git''. repo_char c"
  by (simp add: repo_char_def in_range_def)

lemma lang_repo_part:
  "lang (Times (Plus (Atom repo_char)) (Opt (Lit ''.git'')))
     = {w. w \<noteq> [] \<and> (\<forall>c\<in>set w. repo_char c)}" (is "?L = ?R")
proof (rule set_eqI, rule iffI)
  fix w assume "w \<in> ?L"
  then obtain u v where w: "w = u @ v" and u: "u \<noteq> []" "\<forall>c\<in>set u. repo_char c"
    and v: "v = [] \<or> v = ''.git''"
    by (auto simp: lang_Plus_Atom lang_Opt lang_Lit simp del: Lit.simps)
  from v repo_git have "\<forall>c\<in>set v. repo_char c" by auto
  with w u show "w \<in> ?R" by auto
next
  fix w assume "w \<in> ?R"
  then have "w \<in> lang (Plus (Atom repo_char))" "[] \<in> lang (Opt (Lit ''.git''))"
    by (simp_all add: lang_Plus_Atom lang_Opt)
  then have "w @ [] \<in> ?L" unfolding lang.simps by blast
  then show "w \<in> ?L" by simp
qed

lemma lang_path_part:
  "lang (Times (Plus (Atom owner_char)) (Times (Chr CHR ''/'') r))
     = {owner @ ''/'' @ v | owner v. owner \<noteq> [] \<and> (\<forall>c\<in>set owner. owner_char c) \<and> v \<in> lang r}"
  by (auto simp: lang_Plus_Atom lang_Chr)

lemma lang_scheme_part:
  "lang (Times (Lit ''http'') (Times (Opt (Chr CHR ''s'')) r))
     = {scheme @ v | scheme v. (scheme = ''http'' \<or> scheme = ''https'') \<and> v \<in> lang r}"
  (is "?L = ?R")
proof (rule set_eqI, rule iffI)
  fix w assume "w \<in> ?L"
  then obtain s v where "w = ''http'' @ s @ v" "s = [] \<or> s = ''s''" "v \<in> lang r"
    by (auto simp: lang_Lit lang_Opt lang_Chr simp del: Lit.simps)
  then have "w = (''http'' @ s) @ v" "''http'' @ s = ''http'' \<or> ''http'' @ s = ''https''"
    by auto
  with \<open>v \<in> lang r\<close> show "w \<in> ?R" by blast
next
  fix w assume "w \<in> ?R"
  then obtain scheme v where w: "w = scheme @ v" and v: "v \<in> lang r"
    and "scheme = ''http'' \<or> scheme = ''https''" by blast
  then obtain s where s: "scheme = ''http'' @ s" "s \<in> lang (Opt (Chr CHR ''s''))"
    by (auto simp: lang_Opt lang_Chr)
  from s(2) v have "s @ v \<in> lang (Times (Opt (Chr CHR ''s'')) r)" unfolding lang.simps by blast
  then have "''http'' @ (s @ v) \<in> ?L" unfolding lang_Times_Lit by blast
  with w s(1) show "w \<in> ?L" by simp
qed

lemma lang_fullUrlPattern:
  "lang fullUrlPattern =
     {scheme @ ''://github.com/'' @ owner @ ''/'' @ repo | scheme owner repo.
        (scheme = ''http'' \<or> scheme = ''https'')
        \<and> owner \<noteq> [] \<and> (\<forall>c\<in>set owner. owner_char c)
        \<and> repo \<noteq> [] \<and> (\<forall>c\<in>set repo. repo_char c)}"
  unfolding fullUrlPattern_def lang_scheme_part
  unfolding lang_Times_Lit lang_path_part lang_repo_part
  by blast

lemma validateRepoFormat_iff:
  "validateRepoFormat url \<longleftrightarrow>
     (\<exists>scheme owner repo.
        trim url = scheme @ ''://github.com/'' @ owner @ ''/'' @ repo
        \<and> (scheme = ''http'' \<or> scheme = ''https'')
        \<and> owner \<noteq> [] \<and> (\<forall>c\<in>set owner. owner_char c)
        \<and> repo \<noteq> [] \<and> (\<forall>c\<in>set repo. repo_char c))"
  unfolding validateRepoFormat_def rx_matches_lang lang_fullUrlPattern by blast

subsection \<open>The extension pattern\<close>

lemma lang_extension_pattern:
  "lang extension_pattern = {CHR ''.'' # w | w. w \<noteq> [] \<and> CHR ''.'' \<notin> set w}"
  unfolding extension_pattern_def lang.simps lang_Chr lang_Plus_Atom by auto

lemma extension_match:
  "rx_matches extension_pattern s \<longleftrightarrow> (\<exists>w. s = CHR ''.'' # w \<and> w \<noteq> [] \<and> CHR ''.'' \<notin> set w)"
  unfolding rx_matches_lang lang_extension_pattern by blast

lemma last_extension_Cons:
  "CHR ''.'' \<in> set p \<Longrightarrow> last_extension (c # p) = last_extension p"
  by (simp add: last_extension_def)

lemma last_extension_no_dot: "CHR ''.'' \<notin> set p \<Longrightarrow> last_extension p = []"
  by (simp add: last_extension_def)

lemma last_extension_dot:
  "CHR ''.'' \<notin> set w \<Longrightarrow> last_extension (CHR ''.'' # w) = (if w = [] then [] else CHR ''.'' # w)"
proof -
  assume w: "CHR ''.'' \<notin> set w"
  then have "takeWhile (\<lambda>c. c \<noteq> CHR ''.'') (rev w) = rev w"
    by (simp add: takeWhile_eq_all_conv) metis
  then have "takeWhile (\<lambda>c. c \<noteq> CHR ''.'') (rev w @ [CHR ''.'']) = rev w"
    by (simp add: takeWhile_tail)
  then show ?thesis by (simp add: last_extension_def)
qed

lemma find_extension:
  "find (rx_matches extension_pattern) (suffixes_of p)
     = (if last_extension p = [] then None else Some (last_extension p))"
proof (induction p)
  case Nil
  then show ?case by (simp add: extension_match last_extension_def)
next
  case (Cons c p)
  show ?case
  proof (cases "CHR ''.'' \<in> set p")
    case True
    then have "\<not> rx_matches extension_pattern (c # p)" by (auto simp: extension_match)
    with Cons True show ?thesis by (simp add: last_extension_Cons)
  next
    case False
    show ?thesis
    proof (cases "c = CHR ''.''")
      case True
      with False have m: "rx_matches extension_pattern (c # p) \<longleftrightarrow> p \<noteq> []"
        by (auto simp: extension_match)
      from False Cons have "find (rx_matches extension_pattern) (suffixes_of p) = None"
        by (simp add: last_extension_no_dot)
      moreover have "\<not> rx_matches extension_pattern []" by (simp add: extension_match)
      ultimately show ?thesis using m True False
        by (cases p) (simp_all add: last_extension_dot)
    next
      case c: False
      then have "\<not> rx_matches extension_pattern (c # p)" by (auto simp: extension_match)
      with Cons False c show ?thesis by (simp add: last_extension_no_dot)
    qed
  qed
qed

lemma getFileExtension_Some: "getFileExtension (Some p) = Inr (last_extension p)"
  by (simp add: getFileExtension_def rx_match_end_def find_extension)

lemma extension_key_dot: "\<exists>w. extension_key p = CHR ''.'' # w"
  by (simp add: extension_key_def last_extension_def Let_def)

lemma extension_key_plain: "extension_key p \<notin> set proto_names"
  using extension_key_dot [of p] by (auto simp: proto_names_def)

section \<open>Properties of the dependency graph\<close>

subsection \<open>Plain objects\<close>

lemma proto_in_names: "''__proto__'' \<in> set proto_names"
  by (simp add: proto_names_def)

lemma map_of_obj_put:
  "map_of (obj_put k' v obj) k
     = (if k' = k \<and> k \<noteq> ''__proto__'' then Some v else map_of obj k)"
  by (simp add: obj_put_def update_conv')

lemma obj_get_plain:
  "k \<notin> set proto_names \<Longrightarrow> obj_get obj k = (case map_of obj k of None \<Rightarrow> Undef | Some v \<Rightarrow> v)"
  by (simp add: obj_get_def split: option.splits)

lemma distinct_obj_put:
  "distinct (map fst obj) \<Longrightarrow> distinct (map fst (obj_put k v obj))"
  by (simp add: obj_put_def distinct_update)

subsection \<open>Dictionaries of counts\<close>

lemma map_of_add_count_other:
  "k' \<noteq> k \<Longrightarrow> map_of (add_count native k' d obj) k = map_of obj k"
  by (simp add: add_count_def map_of_obj_put)

lemma holds_count_add_count:
  assumes "k \<notin> set proto_names" and "holds_count obj k c"
  shows "holds_count (add_count native k' d obj) k (if k' = k then c + d else c)"
proof (cases "k' = k")
  case False
  with assms(2) show ?thesis by (simp add: holds_count_def map_of_add_count_other)
next
  case True
  from assms(1) proto_in_names have "k \<noteq> ''__proto__''" by auto
  with True assms show ?thesis
    by (auto simp: holds_count_def add_count_def map_of_obj_put obj_get_plain incremented_def)
qed

lemma count_entry_add_count:
  assumes "k \<notin> set proto_names" and "map_of obj k = count_entry c" and "0 < d"
  shows "map_of (add_count native k' d obj) k = count_entry (if k' = k then c + d else c)"
proof (cases "k' = k")
  case False
  with assms(2) show ?thesis by (simp add: map_of_add_count_other)
next
  case True
  from assms(1) proto_in_names have "k \<noteq> ''__proto__''" by auto
  with True assms show ?thesis
    by (auto simp: count_entry_def add_count_def map_of_obj_put obj_get_plain incremented_def)
qed

lemma apply_increments_other:
  "k \<notin> fst ` set incs \<Longrightarrow> map_of (apply_increments native incs obj) k = map_of obj k"
  unfolding apply_increments_def
  by (induction incs arbitrary: obj) (auto simp: map_of_add_count_other)

lemma apply_increments_holds:
  "k \<notin> set proto_names \<Longrightarrow> holds_count obj k c \<Longrightarrow>
   holds_count (apply_increments native incs obj) k (c + total_for k incs)"
  unfolding apply_increments_def
proof (induction incs arbitrary: obj c)
  case Nil
  then show ?case by (simp add: total_for_def)
next
  case (Cons p incs)
  from holds_count_add_count [OF Cons.prems, of native "fst p" "snd p"]
  have "holds_count (add_count native (fst p) (snd p) obj) k (if fst p = k then c + snd p else c)" .
  from Cons.IH [OF Cons.prems(1) this] show ?case
    by (cases "fst p = k") (simp_all add: total_for_def add.assoc)
qed

lemma apply_increments_entry:
  "k \<notin> set proto_names \<Longrightarrow> map_of obj k = count_entry c \<Longrightarrow> \<forall>p\<in>set incs. 0 < snd p \<Longrightarrow>
   map_of (apply_increments native incs obj) k = count_entry (c + total_for k incs)"
  unfolding apply_increments_def
proof (induction incs arbitrary: obj c)
  case Nil
  then show ?case by (simp add: total_for_def)
next
  case (Cons p incs)
  from Cons.prems(3) have pos: "0 < snd p" and rest: "\<forall>p\<in>set incs. 0 < snd p" by simp_all
  from count_entry_add_count [OF Cons.prems(1,2) pos, of native "fst p"]
  have "map_of (add_count native (fst p) (snd p) obj) k
          = count_entry (if fst p = k then c + snd p else c)" .
  from Cons.IH [OF Cons.prems(1) this rest] show ?case
    by (cases "fst p = k") (simp_all add: total_for_def add.assoc)
qed

lemma apply_increments_append:
  "apply_increments native (xs @ ys) obj
     = apply_increments native ys (apply_increments native xs obj)"
  by (simp add: apply_increments_def)

lemma apply_increments_Nil: "apply_increments native [] obj = obj"
  by (simp add: apply_increments_def)

lemma total_for_append: "total_for k (xs @ ys) = total_for k xs + total_for k ys"
  by (simp add: total_for_def)


lemma add_count_values:
  assumes "k \<notin> set proto_names" and "\<forall>v\<in>snd ` set obj. \<exists>c. v = Count c"
  shows "\<forall>v\<in>snd ` set (add_count native k d obj). \<exists>c. v = Count c"
proof -
  from assms(1) proto_in_names have k: "k \<noteq> ''__proto__''" by auto
  have "\<exists>c. incremented native (obj_get obj k) d = Count c"
  proof (cases "map_of obj k")
    case None
    with assms(1) show ?thesis by (simp add: obj_get_plain incremented_def)
  next
    case (Some v)
    then have "v \<in> snd ` set obj" by (metis map_of_SomeD image_eqI snd_conv)
    with assms(2) obtain c where "v = Count c" by auto
    with Some assms(1) show ?thesis by (simp add: obj_get_plain incremented_def)
  qed
  then obtain c where c: "incremented native (obj_get obj k) d = Count c" ..
  have "set (AList.update k (Count c) obj) \<subseteq> insert (k, Count c) (set obj)"
    by (induction obj) auto
  with assms(2) k c show ?thesis
    by (fastforce simp: add_count_def obj_put_def)
qed

lemma sum_update_count:
  "map_of obj k = None \<and> c = 0 \<or> map_of obj k = Some (Count c) \<Longrightarrow>
   sum_list (map (\<lambda>p. count_value (snd p)) (AList.update k (Count (c + d)) obj))
     = sum_list (map (\<lambda>p. count_value (snd p)) obj) + d"
  by (induction obj) (auto simp: count_value_def)

lemma add_count_sum:
  assumes "k \<notin> set proto_names" and "\<forall>v\<in>snd ` set obj. \<exists>c. v = Count c"
  shows "sum_list (map (\<lambda>p. count_value (snd p)) (add_count native k d obj))
           = sum_list (map (\<lambda>p. count_value (snd p)) obj) + d"
proof -
  from assms(1) proto_in_names have k: "k \<noteq> ''__proto__''" by auto
  show ?thesis
  proof (cases "map_of obj k")
    case None
    with assms(1) have "incremented native (obj_get obj k) d = Count (0 + d)"
      by (simp add: obj_get_plain incremented_def)
    with k None sum_update_count [of obj k 0 d] show ?thesis
      by (simp add: add_count_def obj_put_def)
  next
    case (Some v)
    then have "v \<in> snd ` set obj" by (metis map_of_SomeD image_eqI snd_conv)
    with assms(2) obtain c where v: "v = Count c" by auto
    with Some assms(1) have "incremented native (obj_get obj k) d = Count (c + d)"
      by (simp add: obj_get_plain incremented_def)
    with k Some v sum_update_count [of obj k c d] show ?thesis
      by (simp add: add_count_def obj_put_def)
  qed
qed

lemma apply_increments_sum:
  "\<forall>p\<in>set incs. fst p \<notin> set proto_names \<Longrightarrow> \<forall>v\<in>snd ` set obj. \<exists>c. v = Count c \<Longrightarrow>
   sum_list (map (\<lambda>p. count_value (snd p)) (apply_increments native incs obj))
     = sum_list (map (\<lambda>p. count_value (snd p)) obj) + sum_list (map snd incs)"
  unfolding apply_increments_def
proof (induction incs arbitrary: obj)
  case Nil
  then show ?case by simp
next
  case (Cons p incs)
  from Cons.prems(1) have p: "fst p \<notin> set proto_names"
    and rest: "\<forall>p\<in>set incs. fst p \<notin> set proto_names" by simp_all
  from Cons.IH [OF rest add_count_values [OF p Cons.prems(2), of native "snd p"]]
    add_count_sum [OF p Cons.prems(2), of native "snd p"]
  show ?case by (simp add: add.assoc)
qed

lemma distinct_add_count:
  "distinct (map fst obj) \<Longrightarrow> distinct (map fst (add_count native k d obj))"
  by (simp add: add_count_def distinct_obj_put)

lemma distinct_apply_increments:
  "distinct (map fst obj) \<Longrightarrow> distinct (map fst (apply_increments native incs obj))"
  unfolding apply_increments_def
  by (induction incs arbitrary: obj) (simp_all add: distinct_add_count)

subsection \<open>The edge loop of the backend format\<close>

lemma edges_add_edges:
  "edges (fold (add_edge native m) es st) = edges st @ map (resolve m) es"
  by (induction es arbitrary: st) (simp_all add: add_edge_def Let_def resolve_def)

lemma pfile_push_import: "map pfile (push_import f t ns) = map pfile ns"
  by (induction ns) simp_all

lemma pfile_add_edges:
  "map pfile (nodes (fold (add_edge native m) es st)) = map pfile (nodes st)"
  by (induction es arbitrary: st) (simp_all add: add_edge_def Let_def pfile_push_import)

lemma counts_add_edges:
  "connectionCounts (fold (add_edge native m) es st)
     = apply_increments native (concat (map (edge_increments native m) es)) (connectionCounts st)"
  by (induction es arbitrary: st)
     (simp_all add: add_edge_def Let_def apply_increments_def edge_increments_def)

lemma total_for_edge_increments:
  "total_for k (concat (map (edge_increments native m) es))
     = length (filter (\<lambda>e. to_key native (obj_get m (source e)) = k) es)
       + length (filter (\<lambda>e. to_key native (obj_get m (target e)) = k) es)"
  by (induction es) (simp_all add: total_for_def edge_increments_def)

subsection \<open>The node list and \<open>nodeMap\<close>\<close>

lemma map_err_make_node:
  "map_err make_node ns = Inr pns \<Longrightarrow> map pfile pns = map node_file ns"
  by (induction ns arbitrary: pns)
     (auto simp: make_node_def split: sum.splits if_splits)

lemma map_err_make_node_imports:
  "map_err make_node ns = Inr pns \<Longrightarrow> \<forall>n\<in>set pns. pimports n = []"
  by (induction ns arbitrary: pns)
     (auto simp: make_node_def split: sum.splits if_splits)

lemma nodeMap_snoc:
  "nodeMap (ns @ [n]) = obj_put (node_id n) (file_val (node_file n)) (nodeMap ns)"
  by (simp add: nodeMap_def)

lemma map_of_nodeMap:
  "map_of (nodeMap ns) k
     = (if k = ''__proto__'' then None
        else map_option (\<lambda>n. file_val (node_file n)) (find (\<lambda>n. node_id n = k) (rev ns)))"
proof (induction ns rule: rev_induct)
  case Nil
  then show ?case by (simp add: nodeMap_def)
next
  case (snoc n ns)
  then show ?case by (auto simp: nodeMap_snoc map_of_obj_put)
qed

text \<open>What \<open>nodeMap[k]\<close> is: for \<open>__proto__\<close> the prototype, whatever the nodes; for the id
  of a node the file of the last node with that id; for another name of
  \<open>Object.prototype\<close> the inherited member; for anything else \<open>undefined\<close>.\<close>

lemma obj_get_nodeMap:
  "obj_get (nodeMap ns) k
     = (if k = ''__proto__'' then Member k
        else (case find (\<lambda>n. node_id n = k) (rev ns) of
                Some n \<Rightarrow> file_val (node_file n)
              | None \<Rightarrow> if k \<in> set proto_names then Member k else Undef))"
  by (simp add: obj_get_def map_of_nodeMap proto_in_names split: option.splits)

lemma find_Some_set: "find P xs = Some x \<Longrightarrow> x \<in> set xs \<and> P x"
  by (induction xs) (auto split: if_splits)

lemma find_rev_id:
  "k \<in> node_id ` set ns \<Longrightarrow> \<exists>n\<in>set ns. node_id n = k \<and> find (\<lambda>n. node_id n = k) (rev ns) = Some n"
proof -
  assume "k \<in> node_id ` set ns"
  then have "\<exists>n\<in>set (rev ns). node_id n = k" by auto
  then obtain n where "find (\<lambda>n. node_id n = k) (rev ns) = Some n"
    by (cases "find (\<lambda>n. node_id n = k) (rev ns)") (auto simp: find_None_iff)
  moreover from this have "n \<in> set (rev ns)" "node_id n = k"
    by (auto dest: find_Some_set)
  ultimately show ?thesis by auto
qed

lemma obj_get_nodeMap_resolvable:
  assumes "resolvable ns k"
  shows "\<exists>n\<in>set ns. node_id n = k \<and> obj_get (nodeMap ns) k = file_val (node_file n)"
proof -
  from assms have "k \<in> node_id ` set ns" "k \<noteq> ''__proto__''" by (simp_all add: resolvable_def)
  with find_rev_id [of k ns] show ?thesis by (auto simp: obj_get_nodeMap)
qed

lemma obj_get_nodeMap_unresolvable:
  assumes "\<not> resolvable ns k"
  shows "obj_get (nodeMap ns) k = Undef \<or> (\<exists>m. obj_get (nodeMap ns) k = Member m)"
proof (cases "k = ''__proto__''")
  case True
  then show ?thesis by (simp add: obj_get_nodeMap)
next
  case False
  with assms have "k \<notin> node_id ` set ns" by (simp add: resolvable_def)
  then have "find (\<lambda>n. node_id n = k) (rev ns) = None" by (auto simp: find_None_iff)
  with False show ?thesis by (simp add: obj_get_nodeMap)
qed


subsection \<open>The histogram of file types and the result\<close>

lemma fold_err_count_type:
  "fold_err (count_type native) pns bt0 = Inr bt \<Longrightarrow>
     (\<forall>n\<in>set pns. pfile n \<noteq> None)
   \<and> bt = apply_increments native (type_increments (map pfile pns)) bt0"
proof (induction pns arbitrary: bt0)
  case Nil
  then show ?case by (simp add: apply_increments_def type_increments_def)
next
  case (Cons n pns)
  from Cons.prems obtain ext where
    ext: "getFileExtension (pfile n) = Inr ext"
    by (cases "getFileExtension (pfile n)") (simp_all add: count_type_def)
  then obtain p where p: "pfile n = Some p"
    by (cases "pfile n") (simp_all add: getFileExtension_def)
  with ext have k: "(if ext = [] then ''.other'' else ext) = extension_key p"
    by (simp add: getFileExtension_Some extension_key_def)
  from ext have "count_type native n bt0
      = Inr (add_count native (if ext = [] then ''.other'' else ext) 1 bt0)"
    by (simp add: count_type_def)
  with Cons.prems k have
    rest: "fold_err (count_type native) pns (add_count native (extension_key p) 1 bt0) = Inr bt"
    by simp
  from Cons.IH [OF rest] p show ?case by (simp add: apply_increments_def type_increments_def)
qed

lemma finish_Inr:
  assumes "finish native st = Inr pd"
  shows "nodes pd = nodes st" "edges pd = edges st" "connectionCounts pd = connectionCounts st"
    "fold_err (count_type native) (nodes st) [] = Inr (byType pd)"
  using assms by (auto simp: finish_def split: sum.splits)

lemma backend_Inr:
  assumes "backend native ns es = Inr pd"
  shows "map pfile (nodes pd) = map node_file ns"
    and "edges pd = map (resolve (nodeMap ns)) (input_edges es)"
    and "\<forall>n\<in>set ns. node_file n \<noteq> None"
    and "connectionCounts pd
           = apply_increments native
               (concat (map (edge_increments native (nodeMap ns)) (input_edges es))) []"
    and "byType pd
           = apply_increments native (type_increments (map node_file ns)) []"
proof -
  from assms obtain pns where
    pns: "map_err make_node ns = Inr pns"
    and fin: "finish native (fold (add_edge native (nodeMap ns)) (input_edges es)
                (empty_processed\<lparr>nodes := pns\<rparr>)) = Inr pd"
    by (auto simp: backend_def split: sum.splits)
  note f = finish_Inr [OF fin]
  show files: "map pfile (nodes pd) = map node_file ns"
    by (simp add: f pfile_add_edges map_err_make_node [OF pns])
  show "edges pd = map (resolve (nodeMap ns)) (input_edges es)"
    by (simp add: f edges_add_edges empty_processed_def)
  from fold_err_count_type [OF f(4)] have
    some: "\<forall>n\<in>set (nodes pd). pfile n \<noteq> None"
    and bt: "byType pd = apply_increments native
         (type_increments (map pfile (nodes pd))) []"
    by (simp_all add: f(1))
  from some have "\<forall>x\<in>set (map pfile (nodes pd)). x \<noteq> None" by simp
  then show "\<forall>n\<in>set ns. node_file n \<noteq> None" unfolding files by simp
  show "connectionCounts pd
           = apply_increments native
               (concat (map (edge_increments native (nodeMap ns)) (input_edges es))) []"
    by (simp add: f counts_add_edges empty_processed_def)
  from bt show "byType pd
           = apply_increments native (type_increments (map node_file ns)) []"
    unfolding files .
qed

lemma total_for_types:
  "\<forall>n\<in>set ns. node_file n \<noteq> None \<Longrightarrow>
   total_for k (type_increments (map node_file ns)) = length (nodes_of_type ns k)"
  by (induction ns) (auto simp: total_for_def nodes_of_type_def type_increments_def)

lemma type_keys_plain:
  "\<forall>n\<in>set ns. node_file n \<noteq> None \<Longrightarrow>
   \<forall>p\<in>set (type_increments (map node_file ns)). fst p \<notin> set proto_names \<and> 0 < snd p"
  by (auto simp: extension_key_plain type_increments_def)

lemma backend_byType:
  assumes "backend native ns es = Inr pd"
  shows "map_of (byType pd) k = count_entry (length (nodes_of_type ns k))"
    and "distinct (map fst (byType pd))"
    and "sum_list (map (\<lambda>p. count_value (snd p)) (byType pd)) = length ns"
proof -
  note b = backend_Inr [OF assms]
  let ?incs = "type_increments (map node_file ns)"
  note plain = type_keys_plain [OF b(3)]
  show "map_of (byType pd) k = count_entry (length (nodes_of_type ns k))"
  proof (cases "k \<in> set proto_names")
    case False
    have "map_of [] k = count_entry 0" by (simp add: count_entry_def)
    from apply_increments_entry [OF False this, of ?incs native] plain
    show ?thesis unfolding b(5) by (simp add: total_for_types [OF b(3)])
  next
    case True
    with plain have "k \<notin> fst ` set ?incs" by auto
    from apply_increments_other [OF this, of native "[]"]
    have none: "map_of (byType pd) k = None" unfolding b(5) by simp
    from True plain have "total_for k ?incs = 0"
      by (auto simp: total_for_def filter_empty_conv sum_list_eq_0_iff)
    with none show ?thesis by (simp add: total_for_types [OF b(3)] count_entry_def)
  qed
  show "distinct (map fst (byType pd))"
    unfolding b(5) by (rule distinct_apply_increments) simp
  have "sum_list (map snd ?incs) = length ns"
    by (induction ns) (simp_all add: type_increments_def)
  with apply_increments_sum [of ?incs "[]" native] plain
  show "sum_list (map (\<lambda>p. count_value (snd p)) (byType pd)) = length ns"
    unfolding b(5) by simp
qed


subsection \<open>Which endpoints are files of nodes\<close>

lemma backend_files:
  assumes "backend native ns es = Inr pd"
  shows "pfile ` set (nodes pd) = node_file ` set ns"
  using backend_Inr(1) [OF assms] by (metis list.set_map)

lemma backend_endpoint:
  assumes "backend native ns es = Inr pd"
  shows "is_node_file pd (obj_get (nodeMap ns) k) \<longleftrightarrow> resolvable ns k"
proof (cases "resolvable ns k")
  case True
  from obj_get_nodeMap_resolvable [OF True] show ?thesis
    by (auto simp: is_node_file_def backend_files [OF assms] True)
next
  case False
  have u: "Undef \<notin> file_val ` node_file ` set ns"
    using backend_Inr(3) [OF assms] by (auto simp: file_val_def split: option.splits)
  have m: "Member m \<notin> file_val ` node_file ` set ns" for m
    by (auto simp: file_val_def split: option.splits)
  from obj_get_nodeMap_unresolvable [OF False] u m
  have "obj_get (nodeMap ns) k \<notin> file_val ` node_file ` set ns" by metis
  with False show ?thesis
    by (simp add: is_node_file_def backend_files [OF assms])
qed

lemma backend_edges_endpoints:
  assumes "backend native ns es = Inr pd"
  shows "list_all2
           (\<lambda>e pe. (is_node_file pd (efrom pe) \<longleftrightarrow> resolvable ns (source e))
                  \<and> (is_node_file pd (eto pe) \<longleftrightarrow> resolvable ns (target e)))
           (input_edges es) (edges pd)"
  unfolding backend_Inr(2) [OF assms] list_all2_map2
  by (rule list_all2_refl) (simp add: resolve_def backend_endpoint [OF assms])

lemma backend_no_dangling:
  assumes "backend native ns es = Inr pd"
  shows "no_dangling pd
         \<longleftrightarrow> list_all (\<lambda>e. resolvable ns (source e) \<and> resolvable ns (target e)) (input_edges es)"
  unfolding no_dangling_def backend_Inr(2) [OF assms]
  by (simp add: list_all_iff resolve_def backend_endpoint [OF assms])

subsection \<open>The connection count of a node\<close>

lemma endpoint_key:
  assumes pd: "backend native ns es = Inr pd"
    and n: "node_file n = Some f"
    and bij: "\<forall>m\<in>set ns. (node_id m = node_id n) = (node_file m = node_file n)"
    and id: "node_id n \<noteq> ''__proto__''" and obj: "f \<noteq> ''[object Object]''"
    and k: "k \<in> node_id ` set ns"
  shows "to_key native (obj_get (nodeMap ns) k) = f \<longleftrightarrow> k = node_id n"
proof (cases "k = ''__proto__''")
  case True
  with id obj show ?thesis by (auto simp: obj_get_nodeMap to_key_def member_text_def)
next
  case False
  with k have "resolvable ns k" by (simp add: resolvable_def)
  from obj_get_nodeMap_resolvable [OF this] obtain m where
    m: "m \<in> set ns" "node_id m = k" "obj_get (nodeMap ns) k = file_val (node_file m)" by auto
  from backend_Inr(3) [OF pd] m(1) obtain g where g: "node_file m = Some g" by auto
  from bij m(1) have "(node_id m = node_id n) = (node_file m = node_file n)" by simp
  with m(2,3) g n show ?thesis by (auto simp: to_key_def file_val_def)
qed

lemma backend_degree:
  assumes pd: "backend native ns es = Inr pd" and refs: "edges_reference_nodes ns es"
    and n: "node_file n = Some f"
    and bij: "\<forall>m\<in>set ns. (node_id m = node_id n) = (node_file m = node_file n)"
    and id: "node_id n \<noteq> ''__proto__''" and obj: "f \<noteq> ''[object Object]''"
    and plain: "f \<notin> set proto_names"
  shows "map_of (connectionCounts pd) f
           = count_entry (in_degree (input_edges es) (node_id n)
                          + out_degree (input_edges es) (node_id n))"
proof -
  let ?m = "nodeMap ns" and ?es = "input_edges es"
  note key = endpoint_key [OF pd n bij id obj]
  from refs have ends: "source e \<in> node_id ` set ns \<and> target e \<in> node_id ` set ns"
    if "e \<in> set ?es" for e
    using that by (simp add: edges_reference_nodes_def list_all_iff)
  have s: "filter (\<lambda>e. to_key native (obj_get ?m (source e)) = f) ?es
             = filter (\<lambda>e. source e = node_id n) ?es"
    by (rule filter_cong [OF refl]) (use ends key in blast)
  have t: "filter (\<lambda>e. to_key native (obj_get ?m (target e)) = f) ?es
             = filter (\<lambda>e. target e = node_id n) ?es"
    by (rule filter_cong [OF refl]) (use ends key in blast)
  have pos: "\<forall>p\<in>set (concat (map (edge_increments native ?m) ?es)). 0 < snd p"
    by (auto simp: edge_increments_def)
  have "map_of [] f = count_entry 0" by (simp add: count_entry_def)
  from apply_increments_entry [OF plain this pos]
  show ?thesis
    unfolding backend_Inr(4) [OF pd]
    by (simp add: total_for_edge_increments s t in_degree_def out_degree_def add.commute)
qed

lemma read_count_entry:
  assumes "f \<notin> set proto_names" and "map_of (connectionCounts pd) f = count_entry c"
  shows "connectionCount native pd (Some f) = Count c"
  using assms
  by (simp add: connectionCount_def Let_def to_key_def file_val_def obj_get_plain count_entry_def)

subsection \<open>The entry loop of the legacy format\<close>

lemma fold_add_import:
  "nodes (fold (add_import native f) imps st) = nodes st"
  "edges (fold (add_import native f) imps st)
     = edges st @ map (\<lambda>imp. \<lparr>efrom = Text f, eto = Text imp\<rparr>) imps"
  "connectionCounts (fold (add_import native f) imps st)
     = apply_increments native (map (\<lambda>imp. (imp, 1)) imps) (connectionCounts st)"
  by (induction imps arbitrary: st) (simp_all add: add_import_def apply_increments_def)

lemma add_entry_fields:
  "nodes (add_entry native kv st) = nodes st @ entry_nodes kv"
  "edges (add_entry native kv st) = edges st @ entry_edges kv"
  "connectionCounts (add_entry native kv st)
     = apply_increments native (entry_increments kv) (connectionCounts st)"
  by (auto simp: add_entry_def entry_nodes_def entry_edges_def entry_increments_def
        fold_add_import apply_increments_def split: option.splits)

lemma fold_add_entry:
  "nodes (fold (add_entry native) kvs st) = nodes st @ concat (map entry_nodes kvs)"
  "edges (fold (add_entry native) kvs st) = edges st @ concat (map entry_edges kvs)"
  "connectionCounts (fold (add_entry native) kvs st)
     = apply_increments native (concat (map entry_increments kvs)) (connectionCounts st)"
  by (induction kvs arbitrary: st)
     (simp_all add: add_entry_fields apply_increments_append apply_increments_Nil)

lemma total_for_entry_increments:
  "total_for k (concat (map entry_increments kvs))
     = length (filter (\<lambda>e. efrom e = Text k) (concat (map entry_edges kvs)))
       + length (filter (\<lambda>e. eto e = Text k) (concat (map entry_edges kvs)))"
proof (induction kvs)
  case Nil
  then show ?case by (simp add: total_for_def)
next
  case (Cons kv kvs)
  have "total_for k (entry_increments kv)
      = length (filter (\<lambda>e. efrom e = Text k) (entry_edges kv))
        + length (filter (\<lambda>e. eto e = Text k) (entry_edges kv))"
  proof (cases "snd kv")
    case None
    then show ?thesis by (simp add: entry_increments_def entry_edges_def total_for_def)
  next
    case (Some imps)
    have "sum_list (map snd (filter (\<lambda>p. fst p = k) (map (\<lambda>imp. (imp, 1::nat)) imps)))
            = length (filter (\<lambda>imp. imp = k) imps)"
      by (induction imps) simp_all
    with Some show ?thesis
      by (simp add: entry_increments_def entry_edges_def total_for_def filter_map comp_def)
  qed
  with Cons show ?case by (simp add: total_for_append)
qed

lemma fold_err_count_type_total:
  "\<forall>n\<in>set ns. pfile n \<noteq> None \<Longrightarrow> \<exists>bt. fold_err (count_type native) ns bt0 = Inr bt"
proof (induction ns arbitrary: bt0)
  case Nil
  then show ?case by simp
next
  case (Cons n ns)
  then obtain p where p: "pfile n = Some p" by auto
  then have "count_type native n bt0
      = Inr (add_count native (if last_extension p = [] then ''.other'' else last_extension p) 1 bt0)"
    by (simp add: count_type_def getFileExtension_Some)
  with Cons show ?case by simp
qed

lemma finish_total:
  "\<forall>n\<in>set (nodes st). pfile n \<noteq> None \<Longrightarrow> \<exists>pd. finish native st = Inr pd"
  using fold_err_count_type_total [of "nodes st" native "[]"] by (auto simp: finish_def)

lemma entry_array_None: "k \<notin> fst ` set kvs \<Longrightarrow> entry_array kvs k = None"
  by (simp add: entry_array_def map_of_eq_None_iff [THEN iffD2])

lemma legacy_Inr:
  assumes "''nodes'' \<notin> fst ` set kvs"
  shows "\<exists>pd. processedData native (Legacy kvs) = Inr pd
            \<and> nodes pd = concat (map entry_nodes kvs)
            \<and> edges pd = concat (map entry_edges kvs)
            \<and> connectionCounts pd
                = apply_increments native (concat (map entry_increments kvs)) []"
proof -
  let ?st = "fold (add_entry native) kvs empty_processed"
  have "\<forall>n\<in>set (nodes ?st). pfile n \<noteq> None"
    by (auto simp: fold_add_entry empty_processed_def entry_nodes_def split: option.splits)
  from finish_total [OF this] obtain pd where fin: "finish native ?st = Inr pd" ..
  note f = finish_Inr [OF fin]
  from fin assms have "processedData native (Legacy kvs) = Inr pd"
    by (simp add: entry_array_None)
  then show ?thesis
    by (simp add: f fold_add_entry empty_processed_def)
qed

lemma make_node_total:
  "node_file n \<noteq> None \<Longrightarrow> \<exists>pn. make_node n = Inr pn"
  by (auto simp: make_node_def getFileExtension_def split: option.splits)

lemma map_err_make_node_total:
  "\<forall>n\<in>set ns. node_file n \<noteq> None \<Longrightarrow> \<exists>pns. map_err make_node ns = Inr pns"
proof (induction ns)
  case Nil
  then show ?case by simp
next
  case (Cons n ns)
  then obtain pn pns where "make_node n = Inr pn" "map_err make_node ns = Inr pns"
    using make_node_total [of n] by auto
  then show ?case by simp
qed

lemma backend_total:
  assumes "\<forall>n\<in>set ns. node_file n \<noteq> None"
  shows "\<exists>pd. backend native ns es = Inr pd"
proof -
  from map_err_make_node_total [OF assms] obtain pns where
    pns: "map_err make_node ns = Inr pns" ..
  let ?st = "fold (add_edge native (nodeMap ns)) (input_edges es)
               (empty_processed\<lparr>nodes := pns\<rparr>)"
  have "map pfile (nodes ?st) = map node_file ns"
    by (simp add: pfile_add_edges map_err_make_node [OF pns])
  then have "pfile ` set (nodes ?st) = node_file ` set ns" by (metis list.set_map)
  with assms have "\<forall>n\<in>set (nodes ?st). pfile n \<noteq> None" by (metis imageI image_iff)
  from finish_total [OF this] pns show ?thesis by (simp add: backend_def)
qed

subsection \<open>Where the imports are stored\<close>

lemma owner_inv_no_imports: "\<forall>n\<in>set ns. pimports n = [] \<Longrightarrow> owner_inv ns"
  by (induction ns) simp_all

lemma owner_inv_distinct: "distinct (map pfile ns) \<Longrightarrow> owner_inv ns"
  by (induction ns) (auto simp: image_iff)

lemma file_val_inj: "file_val a = file_val b \<longleftrightarrow> a = b"
  by (cases a; cases b) (simp_all add: file_val_def)

lemma set_push_import:
  "m \<in> set (push_import f t ns) \<Longrightarrow> m \<in> set ns \<or> file_val (pfile m) = f"
  by (induction ns) (auto split: if_splits)

lemma owner_inv_push_import: "owner_inv ns \<Longrightarrow> owner_inv (push_import f t ns)"
proof (induction ns)
  case Nil
  then show ?case by simp
next
  case (Cons n ns)
  show ?case
  proof (cases "file_val (pfile n) = f")
    case True
    with Cons.prems show ?thesis by simp
  next
    case False
    have "pimports m = []" if "m \<in> set (push_import f t ns)" "pfile m = pfile n" for m
    proof -
      from set_push_import [OF that(1)] that(2) False have "m \<in> set ns" by auto
      with Cons.prems that(2) show ?thesis by simp
    qed
    with False Cons show ?thesis by simp
  qed
qed

lemma owner_inv_add_edges:
  "owner_inv (nodes st) \<Longrightarrow> owner_inv (nodes (fold (add_edge native m) es st))"
  by (induction es arbitrary: st)
     (simp_all add: add_edge_def Let_def owner_inv_push_import)

lemma owner_inv_find:
  "owner_inv ns \<Longrightarrow> n \<in> set ns \<Longrightarrow> x \<in> set (pimports n) \<Longrightarrow>
   \<exists>n'. find (\<lambda>m. pfile m = pfile n) ns = Some n' \<and> x \<in> set (pimports n')"
proof (induction ns)
  case Nil
  then show ?case by simp
next
  case (Cons a ns)
  show ?case
  proof (cases "pfile a = pfile n")
    case True
    with Cons.prems have "n = a" by auto
    then show ?thesis using Cons.prems by simp
  next
    case False
    with Cons show ?thesis by auto
  qed
qed

lemma backend_owner_inv:
  assumes "backend native ns es = Inr pd"
  shows "owner_inv (nodes pd)"
proof -
  from assms obtain pns where
    pns: "map_err make_node ns = Inr pns"
    and fin: "finish native (fold (add_edge native (nodeMap ns)) (input_edges es)
                (empty_processed\<lparr>nodes := pns\<rparr>)) = Inr pd"
    by (auto simp: backend_def split: sum.splits)
  have "owner_inv (nodes (empty_processed\<lparr>nodes := pns\<rparr>))"
    using map_err_make_node_imports [OF pns] by (simp add: owner_inv_no_imports)
  from owner_inv_add_edges [OF this] show ?thesis by (simp add: finish_Inr(1) [OF fin])
qed

lemma processedData_owner_inv:
  assumes "processedData native d = Inr pd" and "distinct_keys d"
  shows "owner_inv (nodes pd)"
proof (cases d)
  case NoData
  with assms show ?thesis by (auto simp: empty_processed_def)
next
  case (Backend ns es)
  with assms show ?thesis by (simp add: backend_owner_inv)
next
  case (Legacy kvs)
  with assms have pd: "processedData native (Legacy kvs) = Inr pd"
    and d: "distinct (map fst kvs)"
    by (simp_all add: distinct_keys_def)
  show ?thesis
  proof (cases "entry_array kvs ''nodes''")
    case (Some arr)
    with pd show ?thesis by (simp add: backend_owner_inv)
  next
    case None
    with pd have fin: "finish native (fold (add_entry native) kvs empty_processed) = Inr pd"
      by simp
    have "distinct (map pfile (concat (map entry_nodes kvs)))" using d
      by (induction kvs) (auto simp: entry_nodes_def image_iff split: option.splits)
    then show ?thesis
      by (simp add: finish_Inr(1) [OF fin] fold_add_entry empty_processed_def owner_inv_distinct)
  qed
qed

lemma converse_views:
  assumes "owner_inv ns" and "A \<noteq> []" and "B \<noteq> []"
  shows "Text B \<in> set (selectedImports (Some A) ns)
         \<longleftrightarrow> Some A \<in> set (selectedImportedBy (Some B) ns)"
proof
  assume "Text B \<in> set (selectedImports (Some A) ns)"
  with assms(2) obtain n where
    "find (\<lambda>n. pfile n = Some A) ns = Some n" "Text B \<in> set (pimports n)"
    by (cases "find (\<lambda>n. pfile n = Some A) ns") (simp_all add: selectedImports_def truthy_def)
  then have "n \<in> set ns" "pfile n = Some A" "Text B \<in> set (pimports n)"
    by (auto dest: find_Some_set)
  with assms(3) show "Some A \<in> set (selectedImportedBy (Some B) ns)"
    by (force simp: selectedImportedBy_def truthy_def file_val_def)
next
  assume "Some A \<in> set (selectedImportedBy (Some B) ns)"
  with assms(3) obtain n where n: "n \<in> set ns" "pfile n = Some A" "Text B \<in> set (pimports n)"
    by (auto simp: selectedImportedBy_def truthy_def file_val_def)
  from owner_inv_find [OF assms(1) n(1,3)] n(2) assms(2)
  show "Text B \<in> set (selectedImports (Some A) ns)"
    by (auto simp: selectedImports_def truthy_def)
qed

subsection \<open>The two formats of the same graph\<close>

lemma find_rev_distinct:
  assumes "distinct (map node_id ns)"
  shows "find (\<lambda>n. node_id n = k) (rev ns) = find (\<lambda>n. node_id n = k) ns"
proof (cases "find (\<lambda>n. node_id n = k) ns")
  case None
  then have "\<not> (\<exists>n. n \<in> set (rev ns) \<and> node_id n = k)" by (simp add: find_None_iff)
  then have "find (\<lambda>n. node_id n = k) (rev ns) = None" by (simp add: find_None_iff)
  with None show ?thesis by simp
next
  case (Some n)
  then have n: "n \<in> set ns" "node_id n = k" by (auto dest: find_Some_set)
  then have "k \<in> node_id ` set ns" by auto
  from find_rev_id [OF this] obtain n' where
    n': "n' \<in> set ns" "node_id n' = k" "find (\<lambda>n. node_id n = k) (rev ns) = Some n'" by auto
  from assms have "inj_on node_id (set ns)" by (simp add: distinct_map)
  with n n'(1,2) have "n' = n" by (auto dest: inj_onD)
  with n'(3) Some show ?thesis by simp
qed

lemma nodeMap_id_file:
  assumes "distinct (map node_id ns)" and "k \<in> node_id ` set ns" and "k \<noteq> ''__proto__''"
  shows "obj_get (nodeMap ns) k = id_file ns k"
proof -
  from find_rev_id [OF assms(2)] obtain n where
    "find (\<lambda>n. node_id n = k) (rev ns) = Some n" by auto
  with assms(3) show ?thesis
    by (simp add: obj_get_nodeMap id_file_def find_rev_distinct [OF assms(1), symmetric])
qed

lemma resolve_graph_edges:
  assumes "distinct (map node_id ns)" and "edges_reference_nodes ns (Some es)"
    and "no_proto_endpoint es"
  shows "map (resolve (nodeMap ns)) es = graph_edges ns es"
  unfolding graph_edges_def
proof (rule map_cong [OF refl])
  fix e assume "e \<in> set es"
  with assms(2,3) have "source e \<in> node_id ` set ns" "target e \<in> node_id ` set ns"
    "source e \<noteq> ''__proto__''" "target e \<noteq> ''__proto__''"
    by (simp_all add: edges_reference_nodes_def no_proto_endpoint_def list_all_iff
          input_edges_def)
  then show "resolve (nodeMap ns) e
      = \<lparr>efrom = id_file ns (source e), eto = id_file ns (target e)\<rparr>"
    by (simp add: resolve_def nodeMap_id_file [OF assms(1)])
qed

lemma id_file_node:
  assumes "k \<in> node_id ` set ns"
  shows "id_file ns k \<in> file_val ` node_file ` set ns"
proof -
  from assms have "\<exists>n\<in>set ns. node_id n = k" by auto
  then obtain n where "find (\<lambda>n. node_id n = k) ns = Some n"
    by (cases "find (\<lambda>n. node_id n = k) ns") (auto simp: find_None_iff)
  moreover from this have "n \<in> set ns" by (auto dest: find_Some_set)
  ultimately show ?thesis by (simp add: id_file_def)
qed

lemma graph_edges_endpoints:
  assumes "edges_reference_nodes ns (Some es)" and "Some ` fst ` set kvs = node_file ` set ns"
    and "e \<in> set (graph_edges ns es)"
  shows "efrom e \<in> Text ` fst ` set kvs" "eto e \<in> Text ` fst ` set kvs"
proof -
  have "file_val ` node_file ` set ns = Text ` fst ` set kvs"
    unfolding assms(2) [symmetric] by (simp add: image_image file_val_def)
  with assms(1,3) id_file_node [of _ ns]
  show "efrom e \<in> Text ` fst ` set kvs" "eto e \<in> Text ` fst ` set kvs"
    by (auto simp: graph_edges_def edges_reference_nodes_def list_all_iff input_edges_def)
qed

lemma sum_list_filter_keys:
  "distinct ks \<Longrightarrow>
   (\<Sum>k\<leftarrow>ks. mset (filter (\<lambda>x. g x = k) xs)) = mset (filter (\<lambda>x. g x \<in> set ks) xs)"
proof (induction ks)
  case Nil
  then show ?case by simp
next
  case (Cons k ks)
  have "mset (filter (\<lambda>x. g x = k \<or> g x \<in> set ks) xs)
      = mset (filter (\<lambda>x. g x = k) xs) + mset (filter (\<lambda>x. g x \<in> set ks) xs)"
    using Cons.prems by (induction xs) auto
  with Cons show ?case by simp
qed

lemma entry_edges_described:
  assumes "snd kv = Some imps"
    and "mset (map Text imps) = mset (map eto (filter (\<lambda>e. efrom e = Text (fst kv)) R))"
  shows "mset (entry_edges kv) = mset (filter (\<lambda>e. efrom e = Text (fst kv)) R)"
proof -
  have "mset (entry_edges kv)
      = image_mset (\<lambda>t. \<lparr>efrom = Text (fst kv), eto = t\<rparr>) (mset (map Text imps))"
    by (simp add: entry_edges_def assms(1) multiset.map_comp comp_def)
  also have "\<dots> = mset (map (\<lambda>e. \<lparr>efrom = Text (fst kv), eto = eto e\<rparr>)
                      (filter (\<lambda>e. efrom e = Text (fst kv)) R))"
    unfolding assms(2) by (simp add: multiset.map_comp comp_def)
  also have "map (\<lambda>e. \<lparr>efrom = Text (fst kv), eto = eto e\<rparr>) (filter (\<lambda>e. efrom e = Text (fst kv)) R)
      = filter (\<lambda>e. efrom e = Text (fst kv)) R"
    by (induction R) auto
  finally show ?thesis .
qed

lemma same_graph_edges:
  assumes d: "describes_same_graph kvs ns es" and refs: "edges_reference_nodes ns (Some es)"
  shows "mset (concat (map entry_edges kvs)) = mset (graph_edges ns es)"
proof -
  let ?R = "graph_edges ns es"
  from d have dist: "distinct (map fst kvs)"
    and keys: "Some ` fst ` set kvs = node_file ` set ns"
    and imps: "\<forall>kv\<in>set kvs. \<exists>imps. snd kv = Some imps \<and>
        mset (map Text imps) = mset (map eto (filter (\<lambda>e. efrom e = Text (fst kv)) ?R))"
    by (auto simp: describes_same_graph_def list_all_iff split: option.splits)
  have "mset (concat (map entry_edges kvs)) = (\<Sum>kv\<leftarrow>kvs. mset (entry_edges kv))"
    by (simp add: mset_concat comp_def)
  also have "\<dots> = (\<Sum>kv\<leftarrow>kvs. mset (filter (\<lambda>e. efrom e = Text (fst kv)) ?R))"
    by (rule arg_cong [where f = sum_list], rule map_cong [OF refl])
       (use imps entry_edges_described in blast)
  also have "\<dots> = (\<Sum>k\<leftarrow>map fst kvs. mset (filter (\<lambda>e. efrom e = Text k) ?R))"
    by (simp add: comp_def)
  also have "\<dots> = (\<Sum>k\<leftarrow>map Text (map fst kvs). mset (filter (\<lambda>e. efrom e = k) ?R))"
    by (simp add: comp_def)
  also have "\<dots> = mset (filter (\<lambda>e. efrom e \<in> set (map Text (map fst kvs))) ?R)"
  proof (rule sum_list_filter_keys)
    from dist show "distinct (map Text (map fst kvs))"
      by (simp only: distinct_map [of Text]) (simp add: inj_on_def)
  qed
  also have "filter (\<lambda>e. efrom e \<in> set (map Text (map fst kvs))) ?R = ?R"
  proof -
    have "efrom e \<in> set (map Text (map fst kvs))" if "e \<in> set ?R" for e
      using graph_edges_endpoints(1) [OF refs keys that] by (simp add: image_image)
    then show ?thesis by (simp add: filter_id_conv del: set_map)
  qed
  finally show ?thesis .
qed

lemma length_filter_mset: "mset xs = mset ys \<Longrightarrow> length (filter P xs) = length (filter P ys)"
  by (metis mset_filter size_mset)

lemma read_holds_count:
  assumes "to_key native (file_val f) \<notin> set proto_names"
    and "holds_count (connectionCounts pd) (to_key native (file_val f)) c"
  shows "connectionCount native pd f = Count c"
  using assms by (auto simp: connectionCount_def Let_def obj_get_plain holds_count_def)

lemma read_untouched:
  assumes "map_of (connectionCounts pd) (to_key native (file_val f)) = None"
    and "map_of (connectionCounts pd') (to_key native (file_val f)) = None"
  shows "connectionCount native pd f = connectionCount native pd' f"
  using assms by (simp add: connectionCount_def obj_get_def)

lemma total_for_text_edges:
  assumes "\<forall>e\<in>set R. \<exists>g h. efrom e = Text g \<and> eto e = Text h"
  shows "length (filter (\<lambda>e. to_key native (efrom e) = k) R)
           + length (filter (\<lambda>e. to_key native (eto e) = k) R)
         = length (filter (\<lambda>e. efrom e = Text k) R) + length (filter (\<lambda>e. eto e = Text k) R)"
proof -
  have "filter (\<lambda>e. to_key native (efrom e) = k) R = filter (\<lambda>e. efrom e = Text k) R"
    by (rule filter_cong [OF refl]) (use assms in \<open>auto simp: to_key_def\<close>)
  moreover have "filter (\<lambda>e. to_key native (eto e) = k) R = filter (\<lambda>e. eto e = Text k) R"
    by (rule filter_cong [OF refl]) (use assms in \<open>auto simp: to_key_def\<close>)
  ultimately show ?thesis by simp
qed

lemma backend_legacy_agree:
  assumes d: "describes_same_graph kvs ns es" and refs: "edges_reference_nodes ns (Some es)"
    and proto: "no_proto_endpoint es" and plain: "plain_files kvs"
  shows "\<exists>pb pl. processedData native (Backend ns (Some es)) = Inr pb
            \<and> processedData native (Legacy kvs) = Inr pl
            \<and> set (map pfile (nodes pb)) = set (map pfile (nodes pl))
            \<and> mset (edges pb) = mset (edges pl)
            \<and> (\<forall>f. connectionCount native pb f = connectionCount native pl f)"
proof -
  from d have keys: "Some ` fst ` set kvs = node_file ` set ns"
    and arr: "\<forall>kv\<in>set kvs. snd kv \<noteq> None"
    and ids: "distinct (map node_id ns)"
    by (auto simp: describes_same_graph_def list_all_iff split: option.splits)
  from plain have pk: "\<forall>k\<in>fst ` set kvs. k \<notin> set proto_names"
    and nn: "''nodes'' \<notin> fst ` set kvs"
    by (auto simp: plain_files_def list_all_iff)
  from keys have "\<forall>n\<in>set ns. node_file n \<noteq> None" by (metis imageI image_iff option.distinct(1))
  from backend_total [OF this] obtain pb where pb: "backend native ns (Some es) = Inr pb" ..
  from legacy_Inr [OF nn] obtain pl where pl: "processedData native (Legacy kvs) = Inr pl"
    and ln: "nodes pl = concat (map entry_nodes kvs)"
    and le: "edges pl = concat (map entry_edges kvs)"
    and lc: "connectionCounts pl = apply_increments native (concat (map entry_increments kvs)) []"
    by blast
  note b = backend_Inr [OF pb]
  have be: "edges pb = graph_edges ns es"
    unfolding b(2) by (simp add: input_edges_def resolve_graph_edges [OF ids refs proto])
  have "map pfile (concat (map entry_nodes kvs)) = map Some (map fst kvs)"
    using arr by (induction kvs) (auto simp: entry_nodes_def)
  then have files: "set (map pfile (nodes pb)) = set (map pfile (nodes pl))"
    unfolding b(1) ln using keys by (simp add: image_image)
  have edges: "mset (edges pb) = mset (edges pl)"
    unfolding le be using same_graph_edges [OF d refs] by simp
  have texts: "efrom e \<in> Text ` fst ` set kvs \<and> eto e \<in> Text ` fst ` set kvs"
    if "e \<in> set (edges pb)" for e
    using graph_edges_endpoints [OF refs keys] that unfolding be by blast
  then have tb: "\<forall>e\<in>set (edges pb). \<exists>g h. efrom e = Text g \<and> eto e = Text h" by blast
  have bt: "total_for k (concat (map (edge_increments native (nodeMap ns)) es))
      = length (filter (\<lambda>e. efrom e = Text k) (edges pb))
        + length (filter (\<lambda>e. eto e = Text k) (edges pb))" for k
  proof -
    have "length (filter (\<lambda>e. to_key native (obj_get (nodeMap ns) (source e)) = k) es)
            = length (filter (\<lambda>e. to_key native (efrom e) = k) (edges pb))"
      and "length (filter (\<lambda>e. to_key native (obj_get (nodeMap ns) (target e)) = k) es)
            = length (filter (\<lambda>e. to_key native (eto e) = k) (edges pb))"
      by (simp_all add: b(2) input_edges_def resolve_def filter_map comp_def)
    with total_for_text_edges [OF tb, of native k] show ?thesis
      by (simp add: total_for_edge_increments)
  qed
  have lt: "total_for k (concat (map entry_increments kvs))
      = length (filter (\<lambda>e. efrom e = Text k) (edges pb))
        + length (filter (\<lambda>e. eto e = Text k) (edges pb))" for k
    unfolding total_for_entry_increments le [symmetric]
    using length_filter_mset [OF edges] by simp
  have bkeys: "fst ` set (concat (map (edge_increments native (nodeMap ns)) es)) \<subseteq> fst ` set kvs"
  proof
    fix k assume "k \<in> fst ` set (concat (map (edge_increments native (nodeMap ns)) es))"
    then obtain e where "e \<in> set es"
      and "k = to_key native (obj_get (nodeMap ns) (source e))
           \<or> k = to_key native (obj_get (nodeMap ns) (target e))"
      by (auto simp: edge_increments_def)
    then have "\<exists>pe\<in>set (edges pb). k = to_key native (efrom pe) \<or> k = to_key native (eto pe)"
      unfolding b(2) by (auto simp: input_edges_def resolve_def)
    then obtain pe where pe: "pe \<in> set (edges pb)"
      and k: "k = to_key native (efrom pe) \<or> k = to_key native (eto pe)" by blast
    from texts [OF pe] obtain g h where "efrom pe = Text g" "eto pe = Text h"
      "g \<in> fst ` set kvs" "h \<in> fst ` set kvs" by auto
    with k show "k \<in> fst ` set kvs" by (auto simp: to_key_def)
  qed
  have lkeys: "fst ` set (concat (map entry_increments kvs)) \<subseteq> fst ` set kvs"
  proof
    fix k assume "k \<in> fst ` set (concat (map entry_increments kvs))"
    then obtain kv imps where kv: "kv \<in> set kvs" "snd kv = Some imps"
      and k: "k = fst kv \<or> k \<in> set imps"
      by (auto simp: entry_increments_def split: option.splits)
    show "k \<in> fst ` set kvs"
    proof (cases "k = fst kv")
      case True
      with kv(1) show ?thesis by simp
    next
      case False
      with k have "k \<in> set imps" by simp
      with kv(2) have "\<lparr>efrom = Text (fst kv), eto = Text k\<rparr> \<in> set (entry_edges kv)"
        by (simp add: entry_edges_def)
      with kv(1) have "\<lparr>efrom = Text (fst kv), eto = Text k\<rparr> \<in> set (edges pl)"
        unfolding le by auto
      with mset_eq_setD [OF edges] have "\<lparr>efrom = Text (fst kv), eto = Text k\<rparr> \<in> set (edges pb)"
        by simp
      from texts [OF this] show ?thesis by auto
    qed
  qed
  have "connectionCount native pb f = connectionCount native pl f" for f
  proof (cases "to_key native (file_val f) \<in> set proto_names")
    case True
    with pk have "to_key native (file_val f) \<notin> fst ` set kvs" by blast
    with bkeys lkeys have
      "to_key native (file_val f) \<notin> fst ` set (concat (map (edge_increments native (nodeMap ns)) es))"
      "to_key native (file_val f) \<notin> fst ` set (concat (map entry_increments kvs))"
      by blast+
    from apply_increments_other [OF this(1), of native "[]"]
      apply_increments_other [OF this(2), of native "[]"]
    show ?thesis
      by (intro read_untouched) (simp_all add: b(4) lc input_edges_def)
  next
    case False
    have "holds_count [] (to_key native (file_val f)) 0" by (simp add: holds_count_def)
    from apply_increments_holds [OF False this, of native]
    have "holds_count (connectionCounts pb) (to_key native (file_val f))
            (total_for (to_key native (file_val f))
               (concat (map (edge_increments native (nodeMap ns)) es)))"
      and "holds_count (connectionCounts pl) (to_key native (file_val f))
            (total_for (to_key native (file_val f)) (concat (map entry_increments kvs)))"
      by (simp_all add: b(4) lc input_edges_def)
    from read_holds_count [OF False this(1)] read_holds_count [OF False this(2)]
    show ?thesis by (simp add: bt lt)
  qed
  with pb pl files edges show ?thesis by auto
qed

section \<open>The claims about the dependency graph\<close>

lemmas rx_eval = rx_match_end_def rx_matches_def Plus_def Opt_def Chr_def in_range_def

lemmas graph_eval =
  make_node_def node_file_def js_or_def truthy_def getFileExtension_def extension_pattern_def
  nodeMap_def obj_get_def obj_put_def add_edge_def add_count_def incremented_def to_key_def
  member_text_def file_val_def finish_def count_type_def empty_processed_def input_edges_def
  add_entry_def add_import_def backend_def entry_array_def proto_names_def v8_native_def
  decimal.simps Let_def rx_eval

lemma example_run:
  "processedData v8_native (Backend example_nodes (Some example_edges)) = Inr example_processed"
  by (simp add: example_nodes_def example_edges_def example_processed_def graph_eval)

lemma dangling_run:
  "processedData v8_native (Backend single_node (Some unresolved_edge)) = Inr dangling_processed"
  by (simp add: single_node_def unresolved_edge_def dangling_processed_def graph_eval)

lemma isolated_backend_run:
  "processedData v8_native (Backend single_node (Some [])) = Inr isolated_backend"
  by (simp add: single_node_def isolated_backend_def graph_eval)

lemma isolated_legacy_run:
  "processedData v8_native (Legacy [(''a.py'', Some [])]) = Inr isolated_legacy"
  by (simp add: isolated_legacy_def graph_eval)

lemma proto_run:
  "processedData v8_native (Backend proto_node (Some proto_edge)) = Inr proto_processed"
  by (simp add: proto_node_def proto_edge_def proto_processed_def graph_eval)

lemma proto_legacy_run:
  "processedData v8_native (Legacy proto_legacy) = Inr proto_legacy_processed"
  by (simp add: proto_legacy_def proto_legacy_processed_def graph_eval)

lemma shared_file_run:
  "processedData v8_native (Backend shared_file_nodes (Some shared_file_edge))
     = Inr shared_file_processed"
  by (simp add: shared_file_nodes_def shared_file_edge_def shared_file_processed_def graph_eval)

lemma shared_id_run:
  "processedData v8_native (Backend shared_id_nodes (Some shared_id_edge))
     = Inr shared_id_processed"
  by (simp add: shared_id_nodes_def shared_id_edge_def shared_id_processed_def graph_eval)

lemma constructor_backend_run:
  "processedData v8_native (Backend constructor_nodes (Some example_edges))
     = Inr constructor_backend_processed"
  by (simp add: constructor_nodes_def example_edges_def constructor_backend_processed_def
        graph_eval)

lemma constructor_legacy_run:
  "processedData v8_native (Legacy constructor_legacy) = Inr constructor_legacy_processed"
  by (simp add: constructor_legacy_def constructor_legacy_processed_def graph_eval)

lemma object_run:
  "processedData v8_native (Backend object_nodes (Some proto_edge)) = Inr object_processed"
  by (simp add: object_nodes_def proto_edge_def object_processed_def graph_eval)

lemma readme_run:
  "processedData v8_native (Backend readme_node None) = Inr readme_processed"
  by (simp add: readme_node_def readme_processed_def graph_eval)

lemma nodes_backend_run:
  "processedData v8_native (Backend nodes_node (Some [])) = Inr nodes_backend_processed"
  by (simp add: nodes_node_def nodes_backend_processed_def graph_eval)

lemma nodes_legacy_run:
  "processedData v8_native (Legacy nodes_legacy) = Inr empty_processed"
  by (simp add: nodes_legacy_def graph_eval)

lemma example_refs: "edges_reference_nodes example_nodes (Some example_edges)"
  by (simp add: edges_reference_nodes_def example_nodes_def example_edges_def input_edges_def)

text \<open>
  Claim C2, as amended. For a backend input on which \<open>processedData\<close> returns, the
  processed edge list pairs off with the input edges, and the \<open>from\<close> of a processed edge
  is the file of a node of the processed node list exactly when the source id of its
  input edge is the id of a node and is not \<open>__proto__\<close>; likewise the \<open>to\<close> and the
  target id. So no processed edge is dangling exactly when every input edge has such ids
  at both ends.
\<close>

theorem processedData_no_dangling:
  assumes "processedData native (Backend ns es) = Inr pd"
  shows "list_all2
           (\<lambda>e pe. (is_node_file pd (efrom pe) \<longleftrightarrow> resolvable ns (source e))
                  \<and> (is_node_file pd (eto pe) \<longleftrightarrow> resolvable ns (target e)))
           (input_edges es) (edges pd)
       \<and> (no_dangling pd \<longleftrightarrow> all_resolvable ns (input_edges es))"
proof -
  from assms have b: "backend native ns es = Inr pd" by simp
  from backend_edges_endpoints [OF b] backend_no_dangling [OF b]
  show ?thesis by (simp add: all_resolvable_def)
qed

theorem processedData_no_dangling_witness:
  "processedData v8_native (Backend example_nodes (Some example_edges)) = Inr example_processed
   \<and> all_resolvable example_nodes example_edges
   \<and> no_dangling example_processed"
proof -
  have r: "all_resolvable example_nodes example_edges"
    by (simp add: all_resolvable_def resolvable_def example_nodes_def example_edges_def)
  from processedData_no_dangling [OF example_run] r example_run
  show ?thesis by (simp add: input_edges_def)
qed

text \<open>
  The claim as stated fails: an edge whose target id is not the id of a node is pushed
  with \<open>to: undefined\<close>, which is the file of no node; and the edges of a node whose id
  is \<open>__proto__\<close>, though they reference the id of a node, are pushed with
  \<open>Object.prototype\<close> at both ends.
\<close>

theorem dangling_edge_counterexample:
  "processedData v8_native (Backend single_node (Some unresolved_edge)) = Inr dangling_processed
   \<and> \<not> no_dangling dangling_processed
   \<and> edges_reference_nodes proto_node (Some proto_edge)
   \<and> processedData v8_native (Backend proto_node (Some proto_edge)) = Inr proto_processed
   \<and> \<not> no_dangling proto_processed"
  using dangling_run proto_run
  by (simp add: dangling_processed_def proto_processed_def no_dangling_def is_node_file_def
        file_val_def edges_reference_nodes_def proto_node_def proto_edge_def input_edges_def)

text \<open>
  Claim C3, as amended. For a backend input on which \<open>processedData\<close> returns:
  if every edge's source and target id occur among the node ids, then for each node whose
  id stands for its file and for no other (the nodes with its id are the nodes with its
  file, the id is not \<open>__proto__\<close>, the file is neither the name of a property of
  \<open>Object.prototype\<close> nor \<open>[object Object]\<close>), \<open>connectionCounts\<close> has under the file the
  in-degree plus the out-degree of the node, counted over the input edges by id, and no
  entry when that is \<open>0\<close>, and the component reads that number (\<open>0\<close> for no entry);
  \<open>byType\<close> has under each key the number of nodes whose path has that key as the text
  from its last dot on (\<open>'.other'\<close> for a path without such a text), no entry for another
  key, lists no key twice, and its values sum to the number of nodes.
\<close>

theorem connectionCounts_and_byType:
  assumes "processedData native (Backend ns es) = Inr pd"
  shows "(\<forall>n\<in>set ns. \<forall>f. edges_reference_nodes ns es \<and> identifies ns n f \<longrightarrow>
            map_of (connectionCounts pd) f = count_entry (degree (input_edges es) (node_id n))
          \<and> connectionCount native pd (Some f) = Count (degree (input_edges es) (node_id n)))
       \<and> (\<forall>k. map_of (byType pd) k = count_entry (length (nodes_of_type ns k)))
       \<and> distinct (map fst (byType pd))
       \<and> sum_list (map (\<lambda>p. count_value (snd p)) (byType pd)) = length ns"
proof -
  from assms have b: "backend native ns es = Inr pd" by simp
  have "map_of (connectionCounts pd) f = count_entry (degree (input_edges es) (node_id n))
      \<and> connectionCount native pd (Some f) = Count (degree (input_edges es) (node_id n))"
    if "edges_reference_nodes ns es" "identifies ns n f" for n f
  proof -
    from that(2) have h: "node_file n = Some f"
      "\<forall>m\<in>set ns. (node_id m = node_id n) = (node_file m = node_file n)"
      "node_id n \<noteq> ''__proto__''" "f \<noteq> ''[object Object]''" "f \<notin> set proto_names"
      by (simp_all add: identifies_def)
    from backend_degree [OF b that(1) h]
    have "map_of (connectionCounts pd) f = count_entry (degree (input_edges es) (node_id n))"
      by (simp add: degree_def)
    with read_count_entry [OF h(5) this] show ?thesis by simp
  qed
  with backend_byType [OF b] show ?thesis by blast
qed

theorem connectionCounts_and_byType_witness:
  "processedData v8_native (Backend example_nodes (Some example_edges)) = Inr example_processed
   \<and> edges_reference_nodes example_nodes (Some example_edges)
   \<and> identifies example_nodes (hd example_nodes) ''src/a.py''
   \<and> degree example_edges ''1'' = 2
   \<and> map_of (connectionCounts example_processed) ''src/a.py'' = Some (Count 2)
   \<and> connectionCount v8_native example_processed (Some ''src/a.py'') = Count 2
   \<and> map_of (byType example_processed) ''.py'' = Some (Count 2)
   \<and> length example_nodes = 2"
proof -
  have n: "hd example_nodes \<in> set example_nodes" by (simp add: example_nodes_def)
  have i: "identifies example_nodes (hd example_nodes) ''src/a.py''"
    by (simp add: identifies_def example_nodes_def node_file_def js_or_def truthy_def
          proto_names_def)
  have d: "degree example_edges ''1'' = 2"
    by (simp add: degree_def in_degree_def out_degree_def example_edges_def)
  have id: "node_id (hd example_nodes) = ''1''" by (simp add: example_nodes_def)
  from connectionCounts_and_byType [OF example_run] n i example_refs
  have "map_of (connectionCounts example_processed) ''src/a.py''
          = count_entry (degree (input_edges (Some example_edges)) (node_id (hd example_nodes)))
      \<and> connectionCount v8_native example_processed (Some ''src/a.py'')
          = Count (degree (input_edges (Some example_edges)) (node_id (hd example_nodes)))"
    by blast
  with d id example_run example_refs i show ?thesis
    by (simp add: input_edges_def count_entry_def example_processed_def example_nodes_def)
qed

text \<open>
  The claim as stated fails, in each of these backend inputs whose edges reference node
  ids. Two nodes with the same file, one edge between them: the file has the count \<open>2\<close>,
  the first node the degree \<open>1\<close>. Two nodes with the same id, an edge from that id to
  itself: the first file has no count, its node the degree \<open>2\<close>. A node without edges:
  its file has no entry, where the claim has the value \<open>0\<close>. A file named \<open>constructor\<close>
  with two edges: its count is a string. A node with the id \<open>__proto__\<close> and an edge to
  itself: its file has the count \<open>0\<close>, the node the degree \<open>2\<close>, and a file named
  \<open>[object Object]\<close> beside it is read with the count \<open>2\<close> and has the degree \<open>0\<close>. And
  the file \<open>v1.2/README\<close>, whose name has no extension, is counted under \<open>.2/README\<close>,
  not under \<open>.other\<close>.
\<close>

theorem shared_file_counterexample:
  "edges_reference_nodes shared_file_nodes (Some shared_file_edge)
   \<and> processedData v8_native (Backend shared_file_nodes (Some shared_file_edge))
       = Inr shared_file_processed
   \<and> connectionCount v8_native shared_file_processed (Some ''a.py'') = Count 2
   \<and> degree shared_file_edge ''1'' = 1
   \<and> edges_reference_nodes shared_id_nodes (Some shared_id_edge)
   \<and> processedData v8_native (Backend shared_id_nodes (Some shared_id_edge))
       = Inr shared_id_processed
   \<and> connectionCount v8_native shared_id_processed (Some ''a.py'') = Count 0
   \<and> degree shared_id_edge ''1'' = 2
   \<and> processedData v8_native (Backend single_node (Some [])) = Inr isolated_backend
   \<and> map_of (connectionCounts isolated_backend) ''a.py'' = None
   \<and> edges_reference_nodes constructor_nodes (Some example_edges)
   \<and> processedData v8_native (Backend constructor_nodes (Some example_edges))
       = Inr constructor_backend_processed
   \<and> connectionCount v8_native constructor_backend_processed (Some ''constructor'')
       = Text ''function Object() { [native code] }11''
   \<and> edges_reference_nodes proto_node (Some proto_edge)
   \<and> processedData v8_native (Backend proto_node (Some proto_edge)) = Inr proto_processed
   \<and> connectionCount v8_native proto_processed (Some ''a.py'') = Count 0
   \<and> degree proto_edge ''__proto__'' = 2
   \<and> edges_reference_nodes object_nodes (Some proto_edge)
   \<and> processedData v8_native (Backend object_nodes (Some proto_edge)) = Inr object_processed
   \<and> connectionCount v8_native object_processed (Some ''[object Object]'') = Count 2
   \<and> degree proto_edge ''2'' = 0
   \<and> processedData v8_native (Backend readme_node None) = Inr readme_processed
   \<and> byType readme_processed = [(''.2/README'', Count 1)]
   \<and> file_name_extension ''v1.2/README'' = []"
proof -
  have "edges_reference_nodes shared_file_nodes (Some shared_file_edge)"
    "edges_reference_nodes shared_id_nodes (Some shared_id_edge)"
    "edges_reference_nodes constructor_nodes (Some example_edges)"
    "edges_reference_nodes proto_node (Some proto_edge)"
    "edges_reference_nodes object_nodes (Some proto_edge)"
    by (simp_all add: edges_reference_nodes_def input_edges_def shared_file_nodes_def
          shared_file_edge_def shared_id_nodes_def shared_id_edge_def constructor_nodes_def
          example_edges_def proto_node_def proto_edge_def object_nodes_def)
  moreover have "connectionCount v8_native shared_file_processed (Some ''a.py'') = Count 2"
    "connectionCount v8_native shared_id_processed (Some ''a.py'') = Count 0"
    "map_of (connectionCounts isolated_backend) ''a.py'' = None"
    "connectionCount v8_native constructor_backend_processed (Some ''constructor'')
       = Text ''function Object() { [native code] }11''"
    "connectionCount v8_native proto_processed (Some ''a.py'') = Count 0"
    "connectionCount v8_native object_processed (Some ''[object Object]'') = Count 2"
    by (simp_all add: connectionCount_def obj_get_def to_key_def file_val_def proto_names_def
          shared_file_processed_def shared_id_processed_def isolated_backend_def
          constructor_backend_processed_def proto_processed_def object_processed_def)
  moreover have "degree shared_file_edge ''1'' = 1" "degree shared_id_edge ''1'' = 2"
    "degree proto_edge ''__proto__'' = 2" "degree proto_edge ''2'' = 0"
    by (simp_all add: degree_def in_degree_def out_degree_def shared_file_edge_def
          shared_id_edge_def proto_edge_def)
  moreover have "byType readme_processed = [(''.2/README'', Count 1)]"
    "file_name_extension ''v1.2/README'' = []"
    by (simp_all add: readme_processed_def file_name_extension_def file_name_def
          last_extension_def)
  ultimately show ?thesis
    using shared_file_run shared_id_run isolated_backend_run constructor_backend_run
      proto_run object_run readme_run
    by simp
qed

text \<open>
  Claim C4. For a backend input, the processed edge list has one entry per input edge, in
  the order of the input and with nothing removed, so the number shown as connections,
  whenever the graph is shown, is the number of input edges.
\<close>

theorem edges_preserved:
  assumes "processedData native (Backend ns es) = Inr pd"
  shows "edges pd = map (resolve (nodeMap ns)) (input_edges es)
       \<and> length (edges pd) = length (input_edges es)
       \<and> (ns \<noteq> [] \<longrightarrow> shown_connections ns pd = Some (length (input_edges es)))"
proof -
  from assms have "backend native ns es = Inr pd" by simp
  from backend_Inr(2) [OF this] show ?thesis by (simp add: shown_connections_def)
qed

theorem edges_preserved_witness:
  "processedData v8_native (Backend example_nodes (Some example_edges)) = Inr example_processed
   \<and> example_nodes \<noteq> []
   \<and> edges example_processed
       = [\<lparr>efrom = Text ''src/a.py'', eto = Text ''b.py''\<rparr>,
          \<lparr>efrom = Text ''src/a.py'', eto = Text ''b.py''\<rparr>]
   \<and> shown_connections example_nodes example_processed = Some 2
   \<and> length (input_edges (Some example_edges)) = 2"
  using edges_preserved [OF example_run] example_run
  by (simp add: example_processed_def example_edges_def example_nodes_def input_edges_def
        shown_connections_def)

text \<open>
  Claim C8, as amended. For a backend input whose node ids map bijectively to files and
  whose edges reference node ids, none of them \<open>__proto__\<close>, and a legacy mapping that
  describes the same graph and has no key that is \<open>nodes\<close> or the name of a property of
  \<open>Object.prototype\<close>, \<open>processedData\<close> returns on both, with the same set of node files,
  the same multiset of edges, and the same connection count for every file as the
  component reads it (\<open>connectionCounts[file] || 0\<close>).
\<close>

theorem backend_legacy_same_graph:
  assumes "describes_same_graph kvs ns es" and "edges_reference_nodes ns (Some es)"
    and "no_proto_endpoint es" and "plain_files kvs"
  shows "\<exists>pb pl. processedData native (Backend ns (Some es)) = Inr pb
            \<and> processedData native (Legacy kvs) = Inr pl
            \<and> set (map pfile (nodes pb)) = set (map pfile (nodes pl))
            \<and> mset (edges pb) = mset (edges pl)
            \<and> (\<forall>f. connectionCount native pb f = connectionCount native pl f)"
  using assms by (rule backend_legacy_agree)

theorem backend_legacy_same_graph_witness:
  "describes_same_graph example_legacy example_nodes example_edges
   \<and> edges_reference_nodes example_nodes (Some example_edges)
   \<and> no_proto_endpoint example_edges
   \<and> plain_files example_legacy
   \<and> (\<exists>pb pl. processedData v8_native (Backend example_nodes (Some example_edges)) = Inr pb
            \<and> processedData v8_native (Legacy example_legacy) = Inr pl
            \<and> set (map pfile (nodes pb)) = set (map pfile (nodes pl))
            \<and> mset (edges pb) = mset (edges pl)
            \<and> (\<forall>f. connectionCount v8_native pb f = connectionCount v8_native pl f))"
proof -
  have d: "describes_same_graph example_legacy example_nodes example_edges"
    by (auto simp: describes_same_graph_def example_legacy_def example_nodes_def
          example_edges_def graph_edges_def id_file_def node_file_def js_or_def
          truthy_def file_val_def)
  have p: "no_proto_endpoint example_edges"
    by (simp add: no_proto_endpoint_def example_edges_def)
  have k: "plain_files example_legacy"
    by (simp add: plain_files_def example_legacy_def proto_names_def)
  from backend_legacy_same_graph [OF d example_refs p k, of v8_native] d example_refs p k
  show ?thesis by blast
qed

text \<open>
  The claim as stated fails, in each of these pairs of a backend input, with ids that map
  bijectively to files and edges that reference them, and the legacy mapping of the same
  graph. A file without imports that nothing imports: the legacy branch stores the entry
  \<open>0\<close> in \<open>connectionCounts\<close> and the backend branch stores no entry. A file named
  \<open>constructor\<close> with two imports: the two counts are different strings. A file named
  \<open>nodes\<close>: the legacy mapping is processed as a backend input without nodes. A node
  with the id \<open>__proto__\<close> that imports itself: the edges differ.
\<close>

theorem isolated_node_counterexample:
  "describes_same_graph [(''a.py'', Some [])] single_node []
   \<and> edges_reference_nodes single_node (Some [])
   \<and> processedData v8_native (Backend single_node (Some [])) = Inr isolated_backend
   \<and> processedData v8_native (Legacy [(''a.py'', Some [])]) = Inr isolated_legacy
   \<and> map_of (connectionCounts isolated_backend) ''a.py'' = None
   \<and> map_of (connectionCounts isolated_legacy) ''a.py'' = Some (Count 0)
   \<and> describes_same_graph constructor_legacy constructor_nodes example_edges
   \<and> edges_reference_nodes constructor_nodes (Some example_edges)
   \<and> processedData v8_native (Backend constructor_nodes (Some example_edges))
       = Inr constructor_backend_processed
   \<and> processedData v8_native (Legacy constructor_legacy) = Inr constructor_legacy_processed
   \<and> connectionCount v8_native constructor_backend_processed (Some ''constructor'')
       = Text ''function Object() { [native code] }11''
   \<and> connectionCount v8_native constructor_legacy_processed (Some ''constructor'')
       = Text ''function Object() { [native code] }2''
   \<and> describes_same_graph nodes_legacy nodes_node []
   \<and> edges_reference_nodes nodes_node (Some [])
   \<and> processedData v8_native (Backend nodes_node (Some [])) = Inr nodes_backend_processed
   \<and> processedData v8_native (Legacy nodes_legacy) = Inr empty_processed
   \<and> map pfile (nodes nodes_backend_processed) = [Some ''nodes'']
   \<and> nodes empty_processed = []
   \<and> describes_same_graph proto_legacy proto_node proto_edge
   \<and> edges_reference_nodes proto_node (Some proto_edge)
   \<and> processedData v8_native (Backend proto_node (Some proto_edge)) = Inr proto_processed
   \<and> processedData v8_native (Legacy proto_legacy) = Inr proto_legacy_processed
   \<and> edges proto_processed = [\<lparr>efrom = Member ''__proto__'', eto = Member ''__proto__''\<rparr>]
   \<and> edges proto_legacy_processed = [\<lparr>efrom = Text ''a.py'', eto = Text ''a.py''\<rparr>]"
proof -
  have "describes_same_graph [(''a.py'', Some [])] single_node []"
    "describes_same_graph constructor_legacy constructor_nodes example_edges"
    "describes_same_graph nodes_legacy nodes_node []"
    "describes_same_graph proto_legacy proto_node proto_edge"
    by (auto simp: describes_same_graph_def graph_edges_def id_file_def node_file_def
          js_or_def truthy_def file_val_def single_node_def constructor_legacy_def
          constructor_nodes_def example_edges_def nodes_legacy_def nodes_node_def
          proto_legacy_def proto_node_def proto_edge_def)
  moreover have "edges_reference_nodes single_node (Some [])"
    "edges_reference_nodes constructor_nodes (Some example_edges)"
    "edges_reference_nodes nodes_node (Some [])"
    "edges_reference_nodes proto_node (Some proto_edge)"
    by (simp_all add: edges_reference_nodes_def input_edges_def constructor_nodes_def
          example_edges_def proto_node_def proto_edge_def)
  moreover have "map_of (connectionCounts isolated_backend) ''a.py'' = None"
    "map_of (connectionCounts isolated_legacy) ''a.py'' = Some (Count 0)"
    "connectionCount v8_native constructor_backend_processed (Some ''constructor'')
       = Text ''function Object() { [native code] }11''"
    "connectionCount v8_native constructor_legacy_processed (Some ''constructor'')
       = Text ''function Object() { [native code] }2''"
    "map pfile (nodes nodes_backend_processed) = [Some ''nodes'']"
    "nodes empty_processed = []"
    "edges proto_processed = [\<lparr>efrom = Member ''__proto__'', eto = Member ''__proto__''\<rparr>]"
    "edges proto_legacy_processed = [\<lparr>efrom = Text ''a.py'', eto = Text ''a.py''\<rparr>]"
    by (simp_all add: connectionCount_def obj_get_def to_key_def file_val_def
          isolated_backend_def isolated_legacy_def constructor_backend_processed_def
          constructor_legacy_processed_def nodes_backend_processed_def empty_processed_def
          proto_processed_def proto_legacy_processed_def)
  ultimately show ?thesis
    using isolated_backend_run isolated_legacy_run constructor_backend_run
      constructor_legacy_run nodes_backend_run nodes_legacy_run proto_run proto_legacy_run
    by simp
qed

text \<open>
  Claim C9. In every processed dependency graph, for files \<open>A\<close> and \<open>B\<close> that can be
  selected (non-empty strings), \<open>B\<close> is in the imports shown when \<open>A\<close> is selected if and
  only if \<open>A\<close> is in the list \<open>Imported by\<close> computed when \<open>B\<close> is selected.
\<close>

theorem imports_importedBy_converse:
  assumes "processedData native d = Inr pd" and "distinct_keys d" and "A \<noteq> []" and "B \<noteq> []"
  shows "Text B \<in> set (selectedImports (Some A) (nodes pd))
         \<longleftrightarrow> Some A \<in> set (selectedImportedBy (Some B) (nodes pd))"
  using converse_views [OF processedData_owner_inv [OF assms(1,2)] assms(3,4)] .

theorem imports_importedBy_converse_witness:
  "processedData v8_native (Backend example_nodes (Some example_edges)) = Inr example_processed
   \<and> distinct_keys (Backend example_nodes (Some example_edges))
   \<and> Text ''b.py'' \<in> set (selectedImports (Some ''src/a.py'') (nodes example_processed))
   \<and> Some ''src/a.py'' \<in> set (selectedImportedBy (Some ''b.py'') (nodes example_processed))
   \<and> Text ''src/a.py'' \<notin> set (selectedImports (Some ''b.py'') (nodes example_processed))
   \<and> Some ''b.py'' \<notin> set (selectedImportedBy (Some ''src/a.py'') (nodes example_processed))"
proof -
  have k: "distinct_keys (Backend example_nodes (Some example_edges))"
    by (simp add: distinct_keys_def)
  have "Text ''b.py'' \<in> set (selectedImports (Some ''src/a.py'') (nodes example_processed))"
    by (simp add: selectedImports_def truthy_def example_processed_def)
  with imports_importedBy_converse [OF example_run k, of "''src/a.py''" "''b.py''"]
    imports_importedBy_converse [OF example_run k, of "''b.py''" "''src/a.py''"]
    example_run k
  show ?thesis by (simp add: selectedImports_def truthy_def example_processed_def)
qed

section \<open>Properties of the URL validation\<close>

subsection \<open>Trimming\<close>

lemma trim_idem: "trim (trim s) = trim s"
proof -
  define a where "a = dropWhile js_whitespace s"
  define b where "b = rev (dropWhile js_whitespace (rev a))"
  have b: "trim s = b" by (simp add: trim_def a_def b_def)
  have a_split: "a = b @ rev (takeWhile js_whitespace (rev a))"
    unfolding b_def by (metis rev_append rev_rev_ident takeWhile_dropWhile_id)
  have "dropWhile js_whitespace b = b"
  proof (cases b)
    case Nil
    then show ?thesis by simp
  next
    case (Cons c cs)
    with a_split obtain r where "a = c # r" by (metis append_Cons)
    then have "a \<noteq> []" "hd a = c" by simp_all
    then have "\<not> js_whitespace c" unfolding a_def using hd_dropWhile by blast
    with Cons show ?thesis by simp
  qed
  then have "trim b = rev (dropWhile js_whitespace (rev b))" by (simp add: trim_def)
  also have "\<dots> = b" by (simp add: b_def)
  finally show ?thesis by (simp add: b)
qed

lemma validateRepoFormat_trim: "validateRepoFormat (trim url) = validateRepoFormat url"
  by (simp add: validateRepoFormat_def trim_idem)

subsection \<open>The character classes\<close>

lemma owner_char_repo_char: "owner_char c \<Longrightarrow> repo_char c"
  by (auto simp: owner_char_def repo_char_def)

lemma owner_char_not_dot: "owner_char c \<Longrightarrow> c \<noteq> CHR ''.''"
  by (auto simp: owner_char_def in_range_def)

lemma repo_char_not_slash: "repo_char c \<Longrightarrow> c \<noteq> CHR ''/''"
  by (auto simp: repo_char_def in_range_def)

lemma repo_char_not_meta: "repo_char c \<Longrightarrow> \<not> shell_metachar c"
  by (auto simp: repo_char_def shell_metachar_def in_range_def)

subsection \<open>Path components\<close>

lemma split_on_none: "d \<notin> set w \<Longrightarrow> split_on d w = [w]"
  by (induction w) auto

lemma split_on_append: "d \<notin> set u \<Longrightarrow> split_on d (u @ d # v) = u # split_on d v"
  by (induction u) auto

subsection \<open>The parts of an accepted URL\<close>

lemma accepted_parts:
  assumes t: "t = scheme @ ''://github.com/'' @ owner @ ''/'' @ repo"
    and s: "scheme = ''http'' \<or> scheme = ''https''"
    and o1: "\<forall>c\<in>set owner. owner_char c"
    and rp: "\<forall>c\<in>set repo. repo_char c"
  shows "url_scheme t = scheme"
    and "url_host t = ''github.com''"
    and "url_path t = [owner, repo]"
    and "\<forall>c\<in>set t. \<not> shell_metachar c"
proof -
  from s show "url_scheme t = scheme" unfolding t by (auto simp: url_scheme_def)
  from s have rest: "url_rest t = ''github.com/'' @ owner @ ''/'' @ repo"
    unfolding t by (auto simp: url_rest_def)
  show "url_host t = ''github.com''" by (simp add: url_host_def rest)
  have "CHR ''/'' \<notin> set owner" "CHR ''/'' \<notin> set repo"
    using o1 rp owner_char_repo_char repo_char_not_slash by blast+
  then show "url_path t = [owner, repo]"
    by (simp add: url_path_def rest split_on_append split_on_none)
  have "\<forall>c\<in>set (''://github.com/''). \<not> shell_metachar c"
    by (simp add: shell_metachar_def)
  moreover from s have "\<forall>c\<in>set scheme. \<not> shell_metachar c"
    by (auto simp: shell_metachar_def)
  moreover have "\<not> shell_metachar CHR ''/''" by (simp add: shell_metachar_def)
  ultimately show "\<forall>c\<in>set t. \<not> shell_metachar c"
    unfolding t using o1 rp owner_char_repo_char repo_char_not_meta by auto
qed

lemma validateRepoFormat_parts:
  assumes "validateRepoFormat url"
  shows "url_scheme (trim url) = ''http'' \<or> url_scheme (trim url) = ''https''"
    and "url_host (trim url) = ''github.com''"
    and "\<forall>c\<in>set (trim url). \<not> shell_metachar c"
    and "''..'' \<notin> set (butlast (url_path (trim url)))"
proof -
  from assms obtain scheme owner repo where
    t: "trim url = scheme @ ''://github.com/'' @ owner @ ''/'' @ repo"
    and s: "scheme = ''http'' \<or> scheme = ''https''"
    and o1: "\<forall>c\<in>set owner. owner_char c"
    and rp: "\<forall>c\<in>set repo. repo_char c"
    unfolding validateRepoFormat_iff by blast
  note p = accepted_parts [OF t s o1 rp]
  from p(1) s show "url_scheme (trim url) = ''http'' \<or> url_scheme (trim url) = ''https''"
    by simp
  from p(2) show "url_host (trim url) = ''github.com''" .
  from p(4) show "\<forall>c\<in>set (trim url). \<not> shell_metachar c" .
  have "owner \<noteq> ''..''"
  proof
    assume "owner = ''..''"
    then have "CHR ''.'' \<in> set owner" by simp
    with o1 owner_char_not_dot show False by blast
  qed
  with p(3) show "''..'' \<notin> set (butlast (url_path (trim url)))" by simp
qed

lemmas url_eval = validateRepoFormat_def fullUrlPattern_def trim_def js_whitespace_def
  owner_char_def repo_char_def rx_eval

text \<open>
  Claim C1, as amended. \<open>validateRepoFormat\<close> returns false for every input whose trimmed
  form contains a shell metacharacter, or has a host other than \<open>github.com\<close>, or has
  \<open>..\<close> as a path component other than the last one (so as the owner component, and
  anywhere in a longer path such as that of \<open>https://github.com/../../etc/passwd\<close>).
\<close>

theorem validateRepoFormat_rejects:
  assumes "list_ex shell_metachar (trim url)
           \<or> url_host (trim url) \<noteq> ''github.com''
           \<or> ''..'' \<in> set (butlast (url_path (trim url)))"
  shows "\<not> validateRepoFormat url"
  using assms validateRepoFormat_parts(2,3,4) [of url] by (auto simp: list_ex_iff)

theorem validateRepoFormat_rejects_witness:
  "''..'' \<in> set (butlast (url_path (trim ''https://github.com/../../etc/passwd'')))
   \<and> \<not> validateRepoFormat ''https://github.com/../../etc/passwd''
   \<and> list_ex shell_metachar (trim ''https://github.com/a/b;ls'')
   \<and> \<not> validateRepoFormat ''https://github.com/a/b;ls''
   \<and> url_host (trim ''https://github.com.evil.io/a/b'') \<noteq> ''github.com''
   \<and> \<not> validateRepoFormat ''https://github.com.evil.io/a/b''"
proof -
  have 1: "''..'' \<in> set (butlast (url_path (trim ''https://github.com/../../etc/passwd'')))"
    by (simp add: trim_def js_whitespace_def url_path_def url_rest_def)
  have 2: "list_ex shell_metachar (trim ''https://github.com/a/b;ls'')"
    by (simp add: trim_def js_whitespace_def shell_metachar_def)
  have 3: "url_host (trim ''https://github.com.evil.io/a/b'') \<noteq> ''github.com''"
    by (simp add: trim_def js_whitespace_def url_host_def url_rest_def)
  from 1 2 3
    validateRepoFormat_rejects [of "''https://github.com/../../etc/passwd''"]
    validateRepoFormat_rejects [of "''https://github.com/a/b;ls''"]
    validateRepoFormat_rejects [of "''https://github.com.evil.io/a/b''"]
  show ?thesis by blast
qed

text \<open>
  The claim as stated fails: the class of the repository component contains the dot, so a
  repository component \<open>..\<close> is accepted.
\<close>

theorem repository_dotdot_counterexample:
  "''..'' \<in> set (url_path (trim ''https://github.com/a/..''))
   \<and> validateRepoFormat ''https://github.com/a/..''"
  by (simp add: url_path_def url_rest_def url_eval)

text \<open>
  Claim C6. When the scheme of the URL typed (white space around it aside) is neither
  \<open>http\<close> nor \<open>https\<close>, \<open>validateRepoFormat\<close> returns false, and \<open>analyzeRepo\<close> sets an
  error message, changes nothing else and sends no request, whatever the network would
  answer.
\<close>

theorem non_http_scheme_rejected:
  assumes "url_scheme (trim (repoUrl st)) \<noteq> ''http''"
    and "url_scheme (trim (repoUrl st)) \<noteq> ''https''"
  shows "\<not> validateRepoFormat (repoUrl st)
       \<and> snd (analyzeRepo fetch st) = []
       \<and> fst (analyzeRepo fetch st)
           = st\<lparr>error := Some (if trim (repoUrl st) = []
                                then ''Please enter a GitHub repository URL''
                                else ''Invalid URL format. Example: https://github.com/username/repo.git'')\<rparr>"
proof -
  from assms validateRepoFormat_parts(1) [of "repoUrl st"]
  have "\<not> validateRepoFormat (repoUrl st)" by blast
  then show ?thesis
    by (simp add: analyzeRepo_def Let_def validateRepoFormat_trim)
qed

theorem non_http_scheme_rejected_witness:
  "url_scheme (trim ''ftp://github.com/x/y'') \<noteq> ''http''
   \<and> url_scheme (trim ''ftp://github.com/x/y'') \<noteq> ''https''
   \<and> \<not> validateRepoFormat ''ftp://github.com/x/y''
   \<and> analyzeRepo answers_ok
        \<lparr>repoUrl = ''ftp://github.com/x/y'', isAnalyzing = False, completedSteps = [],
         analysisData = None, error = None, currentStep = None\<rparr>
     = (\<lparr>repoUrl = ''ftp://github.com/x/y'', isAnalyzing = False, completedSteps = [],
         analysisData = None,
         error = Some ''Invalid URL format. Example: https://github.com/username/repo.git'',
         currentStep = None\<rparr>, [])"
proof -
  let ?st = "\<lparr>repoUrl = ''ftp://github.com/x/y'', isAnalyzing = False, completedSteps = [],
         analysisData = None :: unit option, error = None, currentStep = None\<rparr>"
  have t: "trim ''ftp://github.com/x/y'' = ''ftp://github.com/x/y''"
    by (simp add: trim_def js_whitespace_def)
  have 1: "url_scheme (trim (repoUrl ?st)) \<noteq> ''http''"
    and 2: "url_scheme (trim (repoUrl ?st)) \<noteq> ''https''"
    by (simp_all add: t url_scheme_def)
  from non_http_scheme_rejected [OF 1 2, of answers_ok] 1 2
  show ?thesis by (simp add: t prod_eq_iff)
qed

section \<open>Properties of the AI detection panel\<close>

subsection \<open>Steps that may throw\<close>

lemma bind_Inr: "bind (Inr x) f = f x"
  by (simp add: bind_def)

lemma bind_Inl: "bind (Inl e) f = Inl e"
  by (simp add: bind_def)

lemma bind_eq_Inr: "bind m f = Inr y \<longleftrightarrow> (\<exists>x. m = Inr x \<and> f x = Inr y)"
  by (cases m) (simp_all add: bind_def)

lemma succeeds_Inr: "succeeds (Inr x)"
  by (simp add: succeeds_def)

lemma succeeds_Inl: "\<not> succeeds (Inl e)"
  by (simp add: succeeds_def)

lemma succeeds_iff: "succeeds m \<longleftrightarrow> (\<exists>x. m = Inr x)"
  by (cases m) (simp_all add: succeeds_def)

lemma succeeds_bind: "succeeds (bind m f) \<longleftrightarrow> (\<exists>x. m = Inr x \<and> succeeds (f x))"
  by (cases m) (simp_all add: bind_def succeeds_def)

lemma map_err_Inr:
  "\<forall>x\<in>set xs. f x = Inr (g x) \<Longrightarrow> map_err f xs = Inr (map g xs)"
  by (induction xs) simp_all

lemma map_err_fails:
  "x \<in> set xs \<Longrightarrow> \<not> succeeds (f x) \<Longrightarrow> \<not> succeeds (map_err f xs)"
proof (induction xs)
  case Nil
  then show ?case by simp
next
  case (Cons a xs)
  show ?case
  proof (cases "f a")
    case (Inl e)
    then show ?thesis by (simp add: succeeds_def)
  next
    case (Inr y)
    with Cons have "\<not> succeeds (map_err f xs)" by (auto simp: succeeds_def)
    with Inr show ?thesis by (cases "map_err f xs") (simp_all add: succeeds_def)
  qed
qed

subsection \<open>Conversions\<close>

lemma to_text_convertible:
  "succeeds (to_text rt v) \<longleftrightarrow> convertible v"
  "succeeds (join_text rt xs) \<longleftrightarrow> (\<forall>x\<in>set xs. convertible x)"
proof (induction rt v and rt xs rule: to_text_join_text.induct)
  case (7 rt xs)
  then show ?case by (cases "join_text rt xs") (simp_all add: succeeds_def)
next
  case (9 rt x xs)
  show ?case
  proof (cases "x = Undefined \<or> x = Null")
    case True
    with 9 show ?thesis
      by (cases "join_text rt xs") (auto simp: succeeds_def)
  next
    case False
    with 9 show ?thesis
      by (cases "to_text rt x"; cases "join_text rt xs") (auto simp: succeeds_def)
  qed
qed (simp_all add: succeeds_def)

lemma to_number_through_text:
  "succeeds (bind (to_text rt v) (\<lambda>s. Inr (rt_parse rt s))) \<longleftrightarrow> succeeds (to_text rt v)"
  by (cases "to_text rt v") (simp_all add: bind_def succeeds_def)

lemma to_number_convertible: "succeeds (to_number rt v) \<longleftrightarrow> convertible v"
proof (cases v)
  case (Arr xs)
  then have "to_number rt v = bind (to_text rt v) (\<lambda>s. Inr (rt_parse rt s))"
    by (simp add: to_number_def)
  then show ?thesis
    by (simp only: to_number_through_text to_text_convertible(1))
next
  case (Obj kvs)
  then have "to_number rt v = bind (to_text rt v) (\<lambda>s. Inr (rt_parse rt s))"
    by (simp add: to_number_def)
  then show ?thesis
    by (simp only: to_number_through_text to_text_convertible(1))
qed (simp_all add: to_number_def succeeds_def)

lemma to_number_Inr: "convertible v \<Longrightarrow> to_number rt v = Inr (number_of rt v)"
  using to_number_convertible [of rt v]
  by (cases "to_number rt v") (simp_all add: number_of_def succeeds_def)

lemma to_text_Inr: "convertible v \<Longrightarrow> \<exists>s. to_text rt v = Inr s"
  using to_text_convertible(1) [of rt v] by (simp add: succeeds_iff)

lemma to_number_fails: "\<not> convertible v \<Longrightarrow> \<exists>e. to_number rt v = Inl e"
  using to_number_convertible [of rt v] by (cases "to_number rt v") (simp_all add: succeeds_def)

lemma to_text_fails: "\<not> convertible v \<Longrightarrow> \<exists>e. to_text rt v = Inl e"
  using to_text_convertible(1) [of rt v] by (cases "to_text rt v") (simp_all add: succeeds_def)

lemma js_gt_Inr:
  "convertible v \<Longrightarrow> js_gt rt v n = Inr (rt_less rt (rt_of_nat rt n) (number_of rt v))"
  by (simp add: js_gt_def to_number_Inr bind_Inr)

lemma js_lt_Inr:
  "convertible v \<Longrightarrow> js_lt rt v n = Inr (rt_less rt (number_of rt v) (rt_of_nat rt n))"
  by (simp add: js_lt_def to_number_Inr bind_Inr)

lemma js_gt_fails: "\<not> convertible v \<Longrightarrow> \<exists>e. js_gt rt v n = Inl e"
  using to_number_fails [of v rt] by (auto simp: js_gt_def bind_Inl)

lemma js_lt_fails: "\<not> convertible v \<Longrightarrow> \<exists>e. js_lt rt v n = Inl e"
  using to_number_fails [of v rt] by (auto simp: js_lt_def bind_Inl)

lemma getColor_convertible: "succeeds (getColor rt p) \<longleftrightarrow> convertible p"
proof (cases "convertible p")
  case True
  then show ?thesis by (simp add: getColor_def js_lt_Inr bind_Inr succeeds_Inr)
next
  case False
  from js_lt_fails [OF this, of rt 20] show ?thesis
    using False by (auto simp: getColor_def bind_Inl succeeds_Inl)
qed

subsection \<open>Children\<close>

lemma valid_convertible: "valid_child v \<Longrightarrow> convertible v"
  by (induction v) auto

lemma falsy_valid: "\<not> truthy_val rt v \<Longrightarrow> valid_child v"
  by (cases v) simp_all

lemma valid_shown: "valid_option (shown rt v) \<longleftrightarrow> valid_child v"
  using falsy_valid [of rt v] by (auto simp: valid_option_def shown_def)

lemma valid_or_val: "valid_child d \<Longrightarrow> valid_child (or_val rt v d) \<longleftrightarrow> valid_child v"
  using falsy_valid [of rt v] by (auto simp: or_val_def)

subsection \<open>Reading properties\<close>

lemma field_read_prop:
  "d \<noteq> Null \<Longrightarrow> d \<noteq> Undefined \<Longrightarrow> field rt d k = Inr (read_prop rt d k)"
  by (cases d) (simp_all add: read_prop_def)

lemma truthy_val_not_nullish: "truthy_val rt d \<Longrightarrow> d \<noteq> Null \<and> d \<noteq> Undefined"
  by (cases d) simp_all

lemma field_truthy: "truthy_val rt d \<Longrightarrow> field rt d k = Inr (read_prop rt d k)"
  using truthy_val_not_nullish [of rt d] by (simp add: field_read_prop)

lemma entries_truthy: "entries d \<noteq> [] \<Longrightarrow> truthy_val rt d"
  by (cases d) (auto simp: entries_def)

subsection \<open>The sections\<close>

lemma map_err_all:
  "(\<exists>ys. map_err f xs = Inr ys \<and> list_all P ys) \<longleftrightarrow> (\<forall>x\<in>set xs. \<exists>y. f x = Inr y \<and> P y)"
proof (induction xs)
  case Nil
  then show ?case by simp
next
  case (Cons a xs)
  show ?case
  proof (cases "f a")
    case (Inl e)
    then show ?thesis by simp
  next
    case (Inr y)
    show ?thesis
    proof (cases "map_err f xs")
      case (Inl e)
      with Cons Inr show ?thesis by auto
    next
      case ys: (Inr ys)
      with Cons Inr show ?thesis by auto
    qed
  qed
qed

lemma detail_row_Inr: "convertible (snd kv) \<Longrightarrow> detail_row rt kv = Inr (detail_view_of rt kv)"
  using to_text_Inr [of "snd kv" rt]
  by (auto simp: detail_row_def detail_view_of_def js_gt_Inr bind_Inr)

lemma detail_row_fails: "\<not> convertible (snd kv) \<Longrightarrow> \<exists>e. detail_row rt kv = Inl e"
  using js_gt_fails [of "snd kv" rt 50] by (auto simp: detail_row_def bind_Inl)

lemma detail_iff:
  "(\<exists>y. detail_row rt kv = Inr y \<and> valid_child (dv_value y)) \<longleftrightarrow> valid_child (snd kv)"
proof (cases "convertible (snd kv)")
  case True
  then show ?thesis by (simp add: detail_row_Inr detail_view_of_def)
next
  case False
  with detail_row_fails [OF False, of rt] valid_convertible [of "snd kv"] show ?thesis by auto
qed

lemma details_iff:
  "(\<exists>rows. details_section rt d = Inr rows
       \<and> (case rows of None \<Rightarrow> True
           | Some rs \<Rightarrow> list_all (\<lambda>row. valid_child (dv_value row)) rs))
   \<longleftrightarrow> list_all (\<lambda>kv. valid_child (snd kv)) (entries d)"
proof (cases "entries d = []")
  case True
  then show ?thesis by (simp add: details_section_def)
next
  case False
  then have t: "truthy_val rt d" by (rule entries_truthy)
  have "(\<exists>rows. details_section rt d = Inr rows
       \<and> (case rows of None \<Rightarrow> True
           | Some rs \<Rightarrow> list_all (\<lambda>row. valid_child (dv_value row)) rs))
     \<longleftrightarrow> (\<exists>rs. map_err (detail_row rt) (entries d) = Inr rs
            \<and> list_all (\<lambda>row. valid_child (dv_value row)) rs)"
    using False t by (auto simp: details_section_def bind_eq_Inr)
  also have "\<dots> \<longleftrightarrow> (\<forall>kv\<in>set (entries d). \<exists>y. detail_row rt kv = Inr y \<and> valid_child (dv_value y))"
    by (rule map_err_all)
  also have "\<dots> \<longleftrightarrow> list_all (\<lambda>kv. valid_child (snd kv)) (entries d)"
    by (simp add: detail_iff list_all_iff)
  finally show ?thesis .
qed

lemma indicator_row_Inr:
  assumes "i \<noteq> Null" and "i \<noteq> Undefined"
    and "truthy_val rt (read_prop rt i ''examples'') \<longrightarrow>
           convertible (read_prop rt (read_prop rt i ''examples'') ''length'')"
  shows "indicator_row rt i = Inr (indicator_view_of rt i)"
proof (cases "truthy_val rt (read_prop rt i ''examples'')")
  case True
  with assms(3) have "convertible (read_prop rt (read_prop rt i ''examples'') ''length'')"
    by simp
  with True show ?thesis
    by (simp add: indicator_row_def indicator_view_of_def field_read_prop [OF assms(1,2)]
          field_truthy bind_Inr js_gt_Inr positive_def)
next
  case False
  then show ?thesis
    by (simp add: indicator_row_def indicator_view_of_def field_read_prop [OF assms(1,2)]
          bind_Inr)
qed

lemma indicator_row_nullish:
  "i = Null \<or> i = Undefined \<Longrightarrow> \<exists>e. indicator_row rt i = Inl e"
  by (auto simp: indicator_row_def bind_Inl)

lemma indicator_row_unconvertible:
  assumes "i \<noteq> Null" and "i \<noteq> Undefined"
    and "truthy_val rt (read_prop rt i ''examples'')"
    and "\<not> convertible (read_prop rt (read_prop rt i ''examples'') ''length'')"
  shows "\<exists>e. indicator_row rt i = Inl e"
  using js_gt_fails [OF assms(4), of rt 0]
  by (auto simp: indicator_row_def field_read_prop [OF assms(1,2)] field_truthy [OF assms(3)]
        assms(3) bind_Inr bind_Inl)

lemma valid_option_if:
  "valid_option (if c then Some x else None) \<longleftrightarrow> (c \<longrightarrow> valid_child x)"
  by (simp add: valid_option_def)

lemma indicator_view_valid:
  "indicator_children_valid (indicator_view_of rt i) \<longleftrightarrow>
     valid_child (read_prop rt i ''indicator'')
   \<and> valid_child (read_prop rt i ''severity'')
   \<and> valid_child (read_prop rt i ''file_pattern'')
   \<and> (truthy_val rt (read_prop rt i ''examples'')
        \<and> positive rt (read_prop rt (read_prop rt i ''examples'') ''length'') \<longrightarrow>
          valid_child (first_elem (read_prop rt i ''examples'')))"
  by (simp add: indicator_children_valid_def indicator_view_of_def valid_shown valid_option_if)

lemma indicator_iff:
  "(\<exists>r. indicator_row rt i = Inr r \<and> indicator_children_valid r) \<longleftrightarrow> usable_indicator rt i"
proof (cases "i = Null \<or> i = Undefined")
  case True
  with indicator_row_nullish [OF True, of rt] show ?thesis
    by (auto simp: usable_indicator_def)
next
  case False
  then have n: "i \<noteq> Null" "i \<noteq> Undefined" by simp_all
  show ?thesis
  proof (cases "truthy_val rt (read_prop rt i ''examples'')
       \<and> \<not> convertible (read_prop rt (read_prop rt i ''examples'') ''length'')")
    case True
    with indicator_row_unconvertible [OF n, of rt] show ?thesis
      by (auto simp: usable_indicator_def)
  next
    case False
    then have "truthy_val rt (read_prop rt i ''examples'') \<longrightarrow>
           convertible (read_prop rt (read_prop rt i ''examples'') ''length'')" by blast
    from indicator_row_Inr [OF n this] False n show ?thesis
      by (auto simp: usable_indicator_def indicator_view_valid)
  qed
qed

lemma indicators_iff:
  "(\<exists>inds. indicators_section rt found = Inr inds
       \<and> (case inds of None \<Rightarrow> True | Some rows \<Rightarrow> list_all indicator_children_valid rows))
   \<longleftrightarrow> usable_indicators rt found"
proof (cases "truthy_val rt found")
  case False
  then show ?thesis by (simp add: indicators_section_def usable_indicators_def)
next
  case t: True
  show ?thesis
  proof (cases "convertible (read_prop rt found ''length'')")
    case False
    from js_gt_fails [OF this, of rt 0] False t show ?thesis
      by (auto simp: indicators_section_def usable_indicators_def field_truthy bind_Inr bind_Inl)
  next
    case c: True
    show ?thesis
    proof (cases "positive rt (read_prop rt found ''length'')")
      case False
      with t c show ?thesis
        by (simp add: indicators_section_def usable_indicators_def field_truthy bind_Inr
              js_gt_Inr positive_def)
    next
      case p: True
      show ?thesis
      proof (cases found)
        case (Arr xs)
        have "(\<exists>inds. indicators_section rt found = Inr inds
                \<and> (case inds of None \<Rightarrow> True
                    | Some rows \<Rightarrow> list_all indicator_children_valid rows))
            \<longleftrightarrow> (\<exists>rows. map_err (indicator_row rt) (take 5 xs) = Inr rows
                    \<and> list_all indicator_children_valid rows)"
          using t c p Arr
          by (auto simp: indicators_section_def field_truthy bind_Inr js_gt_Inr positive_def
                bind_eq_Inr simp del: field.simps)
        also have "\<dots> \<longleftrightarrow> (\<forall>i\<in>set (take 5 xs).
              \<exists>r. indicator_row rt i = Inr r \<and> indicator_children_valid r)"
          by (rule map_err_all)
        also have "\<dots> \<longleftrightarrow> list_all (usable_indicator rt) (take 5 xs)"
          by (simp add: indicator_iff list_all_iff)
        also have "\<dots> \<longleftrightarrow> usable_indicators rt found"
          using t c p Arr by (simp add: usable_indicators_def)
        finally show ?thesis .
      qed (use t c p in \<open>simp_all add: indicators_section_def usable_indicators_def
             field_truthy bind_Inr js_gt_Inr positive_def del: field.simps\<close>)
    qed
  qed
qed

subsection \<open>The component\<close>

lemma valid_human:
  "valid_child (if truthy_val rt human then human else Num n) \<longleftrightarrow> valid_child human"
  using falsy_valid [of rt human] by simp

lemma AIDetection_truthy:
  assumes t: "truthy_val rt data"
  shows "AIDetection rt data = Inr v \<longleftrightarrow>
     (\<exists>label rows inds.
        convertible (or_val rt (read_prop rt data ''ai_percentage'') (Num (rt_of_nat rt 0)))
      \<and> convertible (or_val rt (read_prop rt data ''confidence'') (Str ''low''))
      \<and> getColor rt (or_val rt (read_prop rt data ''ai_percentage'') (Num (rt_of_nat rt 0)))
          = Inr label
      \<and> details_section rt (read_prop rt data ''details'') = Inr rows
      \<and> indicators_section rt (read_prop rt data ''indicators_found'') = Inr inds
      \<and> v = Rendered
          \<lparr>aiPercentage = or_val rt (read_prop rt data ''ai_percentage'') (Num (rt_of_nat rt 0)),
           humanPercentage =
             (if truthy_val rt (read_prop rt data ''human_percentage'')
              then read_prop rt data ''human_percentage''
              else Num (rt_minus rt (rt_of_nat rt 100)
                     (number_of rt (or_val rt (read_prop rt data ''ai_percentage'')
                        (Num (rt_of_nat rt 0)))))),
           confidence = or_val rt (read_prop rt data ''confidence'') (Str ''low''),
           colorLabel = label,
           summary = shown rt (read_prop rt data ''summary''),
           details = rows,
           indicators = inds,
           recommendation = shown rt (read_prop rt data ''recommendation'')\<rparr>)"
proof (cases "convertible (or_val rt (read_prop rt data ''ai_percentage'') (Num (rt_of_nat rt 0)))")
  case False
  from getColor_convertible [of rt "or_val rt (read_prop rt data ''ai_percentage'') (Num (rt_of_nat rt 0))"]
    False
  obtain e where g: "getColor rt (or_val rt (read_prop rt data ''ai_percentage'')
      (Num (rt_of_nat rt 0))) = Inl e"
    by (cases "getColor rt (or_val rt (read_prop rt data ''ai_percentage'')
      (Num (rt_of_nat rt 0)))") (simp_all add: succeeds_def)
  have "AIDetection rt data \<noteq> Inr v"
    by (simp add: AIDetection_def t field_truthy [OF t] bind_Inr g bind_Inl bind_eq_Inr)
  with False show ?thesis by simp
next
  case ai: True
  show ?thesis
  proof (cases "convertible (or_val rt (read_prop rt data ''confidence'') (Str ''low''))")
    case False
    from to_text_fails [OF this, of rt] obtain e where
      c: "to_text rt (or_val rt (read_prop rt data ''confidence'') (Str ''low'')) = Inl e" ..
    have "AIDetection rt data \<noteq> Inr v"
      by (simp add: AIDetection_def t field_truthy [OF t] bind_Inr c bind_Inl bind_eq_Inr
            to_number_Inr [OF ai])
    with False show ?thesis by simp
  next
    case conf: True
    from to_text_Inr [OF this, of rt] obtain s where
      c: "to_text rt (or_val rt (read_prop rt data ''confidence'') (Str ''low'')) = Inr s" ..
    show ?thesis
      by (auto simp: AIDetection_def t field_truthy [OF t] bind_Inr c bind_eq_Inr
            to_number_Inr [OF ai] ai conf)
  qed
qed

lemma render_truthy:
  assumes t: "truthy_val rt data"
  shows "succeeds (render_AIDetection rt data) \<longleftrightarrow> renderable rt data"
proof
  assume "succeeds (render_AIDetection rt data)"
  then obtain w where "render_AIDetection rt data = Inr w" by (auto simp: succeeds_iff)
  then obtain v where v: "AIDetection rt data = Inr v" and valid: "children_valid v"
    by (auto simp: render_AIDetection_def bind_eq_Inr split: if_splits)
  from v [unfolded AIDetection_truthy [OF t]] obtain label rows inds where
    rows: "details_section rt (read_prop rt data ''details'') = Inr rows"
    and inds: "indicators_section rt (read_prop rt data ''indicators_found'') = Inr inds"
    and r: "v = Rendered
          \<lparr>aiPercentage = or_val rt (read_prop rt data ''ai_percentage'') (Num (rt_of_nat rt 0)),
           humanPercentage =
             (if truthy_val rt (read_prop rt data ''human_percentage'')
              then read_prop rt data ''human_percentage''
              else Num (rt_minus rt (rt_of_nat rt 100)
                     (number_of rt (or_val rt (read_prop rt data ''ai_percentage'')
                        (Num (rt_of_nat rt 0)))))),
           confidence = or_val rt (read_prop rt data ''confidence'') (Str ''low''),
           colorLabel = label,
           summary = shown rt (read_prop rt data ''summary''),
           details = rows,
           indicators = inds,
           recommendation = shown rt (read_prop rt data ''recommendation'')\<rparr>"
    by blast
  from valid have scalars: "valid_child (read_prop rt data ''ai_percentage'')"
    "valid_child (read_prop rt data ''human_percentage'')"
    "valid_child (read_prop rt data ''confidence'')"
    "valid_child (read_prop rt data ''summary'')"
    "valid_child (read_prop rt data ''recommendation'')"
    and rv: "case rows of None \<Rightarrow> True
             | Some rs \<Rightarrow> list_all (\<lambda>row. valid_child (dv_value row)) rs"
    and iv: "case inds of None \<Rightarrow> True | Some rs \<Rightarrow> list_all indicator_children_valid rs"
    unfolding r by (simp_all add: children_valid_def valid_or_val valid_human valid_shown)
  from rows rv details_iff [of rt "read_prop rt data ''details''"]
  have d: "list_all (\<lambda>kv. valid_child (snd kv)) (entries (read_prop rt data ''details''))"
    by blast
  from inds iv indicators_iff [of rt "read_prop rt data ''indicators_found''"]
  have i: "usable_indicators rt (read_prop rt data ''indicators_found'')" by blast
  from scalars d i show "renderable rt data" by (simp add: renderable_def)
next
  assume "renderable rt data"
  then have scalars: "valid_child (read_prop rt data ''ai_percentage'')"
    "valid_child (read_prop rt data ''human_percentage'')"
    "valid_child (read_prop rt data ''confidence'')"
    "valid_child (read_prop rt data ''summary'')"
    "valid_child (read_prop rt data ''recommendation'')"
    and d: "list_all (\<lambda>kv. valid_child (snd kv)) (entries (read_prop rt data ''details''))"
    and i: "usable_indicators rt (read_prop rt data ''indicators_found'')"
    by (simp_all add: renderable_def)
  from scalars(1) have ai: "valid_child (or_val rt (read_prop rt data ''ai_percentage'')
      (Num (rt_of_nat rt 0)))" by (simp add: valid_or_val)
  from scalars(3) have conf: "valid_child (or_val rt (read_prop rt data ''confidence'')
      (Str ''low''))" by (simp add: valid_or_val)
  from getColor_convertible [of rt "or_val rt (read_prop rt data ''ai_percentage'')
      (Num (rt_of_nat rt 0))"] valid_convertible [OF ai]
  obtain label where label: "getColor rt (or_val rt (read_prop rt data ''ai_percentage'')
      (Num (rt_of_nat rt 0))) = Inr label" by (auto simp: succeeds_iff)
  from d details_iff [of rt "read_prop rt data ''details''"] obtain rows where
    rows: "details_section rt (read_prop rt data ''details'') = Inr rows"
    and rv: "case rows of None \<Rightarrow> True
             | Some rs \<Rightarrow> list_all (\<lambda>row. valid_child (dv_value row)) rs" by blast
  from i indicators_iff [of rt "read_prop rt data ''indicators_found''"] obtain inds where
    inds: "indicators_section rt (read_prop rt data ''indicators_found'') = Inr inds"
    and iv: "case inds of None \<Rightarrow> True | Some rs \<Rightarrow> list_all indicator_children_valid rs"
    by blast
  let ?v = "Rendered
          \<lparr>aiPercentage = or_val rt (read_prop rt data ''ai_percentage'') (Num (rt_of_nat rt 0)),
           humanPercentage =
             (if truthy_val rt (read_prop rt data ''human_percentage'')
              then read_prop rt data ''human_percentage''
              else Num (rt_minus rt (rt_of_nat rt 100)
                     (number_of rt (or_val rt (read_prop rt data ''ai_percentage'')
                        (Num (rt_of_nat rt 0)))))),
           confidence = or_val rt (read_prop rt data ''confidence'') (Str ''low''),
           colorLabel = label,
           summary = shown rt (read_prop rt data ''summary''),
           details = rows,
           indicators = inds,
           recommendation = shown rt (read_prop rt data ''recommendation'')\<rparr>"
  have v: "AIDetection rt data = Inr ?v"
    unfolding AIDetection_truthy [OF t]
    using valid_convertible [OF ai] valid_convertible [OF conf] label rows inds by blast
  have "children_valid ?v"
    using ai conf scalars rv iv
    by (simp add: children_valid_def valid_human valid_shown)
  with v show "succeeds (render_AIDetection rt data)"
    by (simp add: render_AIDetection_def bind_Inr succeeds_Inr)
qed

lemma render_falsy: "\<not> truthy_val rt data \<Longrightarrow> render_AIDetection rt data = Inr NoData_view"
  by (simp add: render_AIDetection_def AIDetection_def bind_Inr children_valid_def)

lemma render_defaults:
  assumes "render_AIDetection rt data = Inr (Rendered r)"
  shows "aiPercentage r = or_val rt (read_prop rt data ''ai_percentage'') (Num (rt_of_nat rt 0))"
    and "humanPercentage r
           = or_val rt (read_prop rt data ''human_percentage'')
               (Num (rt_minus rt (rt_of_nat rt 100) (number_of rt (aiPercentage r))))"
    and "confidence r = or_val rt (read_prop rt data ''confidence'') (Str ''low'')"
proof -
  from assms have v: "AIDetection rt data = Inr (Rendered r)"
    by (auto simp: render_AIDetection_def bind_eq_Inr split: if_splits)
  then have t: "truthy_val rt data"
    by (cases "truthy_val rt data") (simp_all add: AIDetection_def)
  from v [unfolded AIDetection_truthy [OF t]]
  show "aiPercentage r = or_val rt (read_prop rt data ''ai_percentage'') (Num (rt_of_nat rt 0))"
    and "humanPercentage r
           = or_val rt (read_prop rt data ''human_percentage'')
               (Num (rt_minus rt (rt_of_nat rt 100) (number_of rt (aiPercentage r))))"
    and "confidence r = or_val rt (read_prop rt data ''confidence'') (Str ''low'')"
    by (auto simp: or_val_def)
qed

lemma read_prop_missing: "k \<notin> fst ` set kvs \<Longrightarrow> read_prop rt (Obj kvs) k = Undefined"
  by (simp add: read_prop_def map_of_eq_None_iff [THEN iffD2])

section \<open>The claim about the AI detection panel\<close>

lemmas runtime_eval =
  example_runtime_def some_int_def falsy_int_def less_int_def minus_int_def print_int_def
  parse_numeral_def

lemmas panel_eval =
  render_AIDetection_def AIDetection_def bind_def or_val_def getColor_def js_lt_def js_gt_def
  to_number_def shown_def details_section_def indicators_section_def indicator_row_def
  detail_row_def entries_def children_valid_def indicator_children_valid_def valid_option_def
  runtime_eval

lemma sparse_run: "render_AIDetection example_runtime sparse_payload = Inr (Rendered sparse_report)"
  by (simp add: sparse_payload_def sparse_report_def panel_eval)

lemma sparse_truthy: "truthy_val example_runtime sparse_payload"
  by (simp add: sparse_payload_def)

lemma sparse_missing:
  "read_prop example_runtime sparse_payload ''ai_percentage'' = Undefined"
  "read_prop example_runtime sparse_payload ''human_percentage'' = Undefined"
  "read_prop example_runtime sparse_payload ''confidence'' = Undefined"
  by (simp_all add: sparse_payload_def read_prop_def)

text \<open>
  Claim C7, as amended. The failures considered are the exceptions of the component
  function and React's rejection of an object as a child. A falsy payload (\<open>null\<close> among
  them) is rendered as \<open>No AI detection data available\<close>. A truthy payload is rendered
  without failure exactly when it is renderable: its \<open>ai_percentage\<close>,
  \<open>human_percentage\<close>, \<open>confidence\<close>, \<open>summary\<close> and \<open>recommendation\<close> and the values of
  its \<open>details\<close> are valid children (no object, and no array with an object in it), and
  its \<open>indicators_found\<close> is usable. In every report rendered, the AI percentage is
  \<open>ai_percentage || 0\<close>, the human percentage is \<open>human_percentage || (100 - aiPercentage)\<close>
  and the confidence is \<open>confidence || 'low'\<close>; so a missing \<open>ai_percentage\<close> is \<open>0\<close>, a
  missing \<open>human_percentage\<close> is \<open>100\<close> minus the AI percentage, and a missing
  \<open>confidence\<close> is \<open>'low'\<close>.
\<close>

theorem AIDetection_defaults:
  "(\<not> truthy_val rt data \<longrightarrow> render_AIDetection rt data = Inr NoData_view)
 \<and> (truthy_val rt data \<longrightarrow> (succeeds (render_AIDetection rt data) \<longleftrightarrow> renderable rt data))
 \<and> (\<forall>r. render_AIDetection rt data = Inr (Rendered r) \<longrightarrow>
        aiPercentage r = or_val rt (read_prop rt data ''ai_percentage'') (Num (rt_of_nat rt 0))
      \<and> humanPercentage r
          = or_val rt (read_prop rt data ''human_percentage'')
              (Num (rt_minus rt (rt_of_nat rt 100) (number_of rt (aiPercentage r))))
      \<and> confidence r = or_val rt (read_prop rt data ''confidence'') (Str ''low'')
      \<and> (read_prop rt data ''ai_percentage'' = Undefined \<longrightarrow>
           aiPercentage r = Num (rt_of_nat rt 0))
      \<and> (read_prop rt data ''human_percentage'' = Undefined \<longrightarrow>
           humanPercentage r
             = Num (rt_minus rt (rt_of_nat rt 100) (number_of rt (aiPercentage r))))
      \<and> (read_prop rt data ''confidence'' = Undefined \<longrightarrow> confidence r = Str ''low''))"
proof -
  have "aiPercentage r = or_val rt (read_prop rt data ''ai_percentage'') (Num (rt_of_nat rt 0))
      \<and> humanPercentage r
          = or_val rt (read_prop rt data ''human_percentage'')
              (Num (rt_minus rt (rt_of_nat rt 100) (number_of rt (aiPercentage r))))
      \<and> confidence r = or_val rt (read_prop rt data ''confidence'') (Str ''low'')
      \<and> (read_prop rt data ''ai_percentage'' = Undefined \<longrightarrow>
           aiPercentage r = Num (rt_of_nat rt 0))
      \<and> (read_prop rt data ''human_percentage'' = Undefined \<longrightarrow>
           humanPercentage r
             = Num (rt_minus rt (rt_of_nat rt 100) (number_of rt (aiPercentage r))))
      \<and> (read_prop rt data ''confidence'' = Undefined \<longrightarrow> confidence r = Str ''low'')"
    if "render_AIDetection rt data = Inr (Rendered r)" for r
    using render_defaults [OF that] by (simp add: or_val_def)
  with render_falsy [of rt data] render_truthy [of rt data] show ?thesis by blast
qed

theorem AIDetection_defaults_witness:
  "\<not> truthy_val example_runtime Null
   \<and> render_AIDetection example_runtime Null = Inr NoData_view
   \<and> truthy_val example_runtime sparse_payload
   \<and> renderable example_runtime sparse_payload
   \<and> render_AIDetection example_runtime sparse_payload = Inr (Rendered sparse_report)
   \<and> read_prop example_runtime sparse_payload ''ai_percentage'' = Undefined
   \<and> read_prop example_runtime sparse_payload ''human_percentage'' = Undefined
   \<and> read_prop example_runtime sparse_payload ''confidence'' = Undefined
   \<and> aiPercentage sparse_report = Num (Some 0)
   \<and> humanPercentage sparse_report = Num (Some 100)
   \<and> confidence sparse_report = Str ''low''"
proof -
  note n = AIDetection_defaults [of example_runtime Null]
  note s = AIDetection_defaults [of example_runtime sparse_payload]
  from n have "render_AIDetection example_runtime Null = Inr NoData_view" by simp
  moreover from s sparse_truthy sparse_run have "renderable example_runtime sparse_payload"
    by (simp add: succeeds_Inr)
  moreover from s sparse_run sparse_missing have
    "aiPercentage sparse_report = Num (rt_of_nat example_runtime 0)
     \<and> humanPercentage sparse_report
         = Num (rt_minus example_runtime (rt_of_nat example_runtime 100)
             (number_of example_runtime (aiPercentage sparse_report)))
     \<and> confidence sparse_report = Str ''low''"
    by blast
  ultimately show ?thesis
    using sparse_truthy sparse_run sparse_missing
    by (simp add: sparse_report_def)
qed

text \<open>
  The claim as stated fails: rendering is not total over payload shapes. An entry of
  \<open>indicators_found\<close> that is \<open>null\<close> makes the component function throw a TypeError at
  \<open>indicator.severity\<close>; a \<open>summary\<close> that is an object makes React throw; and an
  \<open>ai_percentage\<close> that is an object with an own property \<open>toString\<close> makes
  \<open>100 - aiPercentage\<close> throw a TypeError.
\<close>

theorem null_indicator_counterexample:
  "truthy_val example_runtime null_indicator_payload
   \<and> render_AIDetection example_runtime null_indicator_payload = Inl TypeError
   \<and> truthy_val example_runtime object_summary_payload
   \<and> render_AIDetection example_runtime object_summary_payload = Inl ReactError
   \<and> truthy_val example_runtime unconvertible_percentage_payload
   \<and> render_AIDetection example_runtime unconvertible_percentage_payload = Inl TypeError"
  by (simp add: null_indicator_payload_def object_summary_payload_def
        unconvertible_percentage_payload_def panel_eval)

end
